theory Spec2Isabelle
  imports Main "HOL-Library.Word" "HOL-Library.Multiset"
begin

section \<open>Data model (pkg/chunking)\<close>

text \<open>
  Bytes are 8-bit words. Go's \<^verbatim>\<open>int\<close> and \<^verbatim>\<open>int64\<close> values are modelled as
  mathematical integers. The one computation that can leave the 64-bit range on values of
  the right types is the running total of \<open>ValidateFileMetadata\<close>, which adds up
  arbitrary \<^verbatim>\<open>int64\<close> sizes; there the wrap-around is written out (\<open>wrap64\<close> below).
  In the split and reassembly functions every intermediate value lies between 0 and the
  length of a byte slice, so nothing wraps.
\<close>

type_synonym byte = "8 word"

record FileChunk =
  ID :: string
  Index :: int
  FileID :: string
  Size :: int
  Checksum :: string
  Data :: "byte list"

text \<open>
  \<open>FileMetadata\<close> has fields named like those of \<open>FileChunk\<close> in the source
  (\<^verbatim>\<open>ID\<close>, \<^verbatim>\<open>Size\<close>, \<^verbatim>\<open>Checksum\<close>); they carry the prefix \<open>m\<close> here.
\<close>

record FileMetadata =
  mID :: string
  OriginalName :: string
  mSize :: int
  mChecksum :: string
  ChunkCount :: int
  Chunks :: "FileChunk list"
  ContentType :: string

text \<open>The zero value of \<^verbatim>\<open>FileChunk\<close>, which \<^verbatim>\<open>make([]FileChunk, n)\<close> fills a slice with.\<close>

definition zeroChunk :: FileChunk where
  "zeroChunk = \<lparr>ID = [], Index = 0, FileID = [], Size = 0, Checksum = [], Data = []\<rparr>"

subsection \<open>Outcomes: a returned value, a returned error, or a run-time panic\<close>

datatype go_panic =
    DivideByZero
  | MakeSliceLenOutOfRange
  | SliceBoundsOutOfRange

datatype error =
    ErrOpenFile
  | ErrStat
  | ErrFileChecksum
  | ErrReadChunk int
  | ErrNoChunks
  | ErrMissingChunk int
  | ErrCreateOutput
  | ErrWriteChunk int
  | ErrChunkCountMismatch
  | ErrWrongIndex int int
  | ErrWrongFileID int
  | ErrTotalSize
  | ErrChunkNotFound
  | ErrTransport
  | ErrServerStatus nat
  | ErrDecode
  | ErrStoreChunk int int error
  | ErrGetChunk int int error

datatype 'a result = is_Ok: Ok 'a | is_Err: Err error | is_Panic: Panic go_panic

subsection \<open>Integer helpers\<close>

text \<open>Go's \<^verbatim>\<open>/\<close> and \<^verbatim>\<open>%\<close> on integers truncate towards zero; the caller has
  already handled a zero divisor (a panic).\<close>

definition go_div :: "int \<Rightarrow> int \<Rightarrow> int" where
  "go_div a b = sgn a * sgn b * (\<bar>a\<bar> div \<bar>b\<bar>)"

definition go_rem :: "int \<Rightarrow> int \<Rightarrow> int" where
  "go_rem a b = a - b * go_div a b"

text \<open>
  \<^verbatim>\<open>make([]T, n)\<close> panics (\<^verbatim>\<open>makeslice: len out of range\<close>) when \<open>n\<close> is negative or
  when \<open>n\<close> elements take more bytes than the runtime can address in one allocation. The
  limit is that of the Go runtime on 64-bit Linux (\<open>2 ^ 48\<close> bytes); a \<^verbatim>\<open>FileChunk\<close> there
  takes 88 bytes (three strings of 16 bytes, an \<^verbatim>\<open>int\<close>, an \<^verbatim>\<open>int64\<close> and a slice header of
  24 bytes), a byte takes one. Running out of memory below that limit is not modelled.
\<close>

definition maxAlloc :: int where
  "maxAlloc = 2 ^ 48"

definition sizeof_FileChunk :: int where
  "sizeof_FileChunk = 88"

definition makeslice_len_out_of_range :: "int \<Rightarrow> int \<Rightarrow> bool" where
  "makeslice_len_out_of_range elemSize len \<longleftrightarrow> len < 0 \<or> maxAlloc < len * elemSize"

text \<open>The value an \<^verbatim>\<open>int64\<close> holds after an arithmetic result \<open>x\<close> is stored in it.\<close>

definition wrap64 :: "int \<Rightarrow> int" where
  "wrap64 x = (x + 2 ^ 63) mod 2 ^ 64 - 2 ^ 63"

text \<open>\<^verbatim>\<open>%d\<close> of \<^verbatim>\<open>fmt.Sprintf\<close>: decimal digits, with a minus sign for a negative number.\<close>

definition digit_char :: "nat \<Rightarrow> char" where
  "digit_char d = ''0123456789'' ! d"

function utoa :: "nat \<Rightarrow> string" where
  "utoa n = (if n < 10 then [digit_char n] else utoa (n div 10) @ [digit_char (n mod 10)])"
  by pat_completeness auto
termination
  by (relation "measure (\<lambda>n. n)") auto

declare utoa.simps [simp del]

definition itoa :: "int \<Rightarrow> string" where
  "itoa i = (if i < 0 then CHR ''-'' # utoa (nat (- i)) else utoa (nat i))"

text \<open>\<^verbatim>\<open>fmt.Sprintf("%s_chunk_%d", fileID, i)\<close>\<close>

definition chunk_id :: "string \<Rightarrow> int \<Rightarrow> string" where
  "chunk_id fileID i = fileID @ ''_chunk_'' @ itoa i"

section \<open>The coordinator's in-memory split (cmd/api/main.go, chunkFileInMemory)\<close>

text \<open>
  SHA-256 rendered in hexadecimal (\<^verbatim>\<open>calculateChecksum\<close>, and the \<^verbatim>\<open>sha256\<close> hasher
  followed by \<^verbatim>\<open>%x\<close> in \<^verbatim>\<open>ChunkFile\<close>) is library code; it is the parameter \<open>H\<close> of
  every function that hashes.

  \<^verbatim>\<open>data[start:end]\<close> panics unless \<open>0 \<le> start \<le> end\<close> and \<open>end\<close> is within the
  slice; the model checks against the length.
\<close>

definition slice :: "byte list \<Rightarrow> int \<Rightarrow> int \<Rightarrow> byte list result" where
  "slice data start end =
     (if 0 \<le> start \<and> start \<le> end \<and> end \<le> int (length data)
      then Ok (take (nat (end - start)) (drop (nat start) data))
      else Panic SliceBoundsOutOfRange)"

function chunkFileInMemory_loop ::
  "(byte list \<Rightarrow> string) \<Rightarrow> byte list \<Rightarrow> string \<Rightarrow> int \<Rightarrow> int \<Rightarrow> int \<Rightarrow> FileChunk list
     \<Rightarrow> FileChunk list result" where
  "chunkFileInMemory_loop H data fileID chunkCount chunkSize i chunks =
     (if i < chunkCount then
        (let start = i * chunkSize;
             end0 = start + chunkSize;
             end = (if i = chunkCount - 1 then int (length data) else end0)
         in case slice data start end of
              Panic p \<Rightarrow> Panic p
            | Err e \<Rightarrow> Err e
            | Ok chunkData \<Rightarrow>
                chunkFileInMemory_loop H data fileID chunkCount chunkSize (i + 1)
                  (chunks[nat i := \<lparr>ID = chunk_id fileID i, Index = i, FileID = fileID,
                                     Size = int (length chunkData), Checksum = H chunkData,
                                     Data = chunkData\<rparr>]))
      else Ok chunks)"
  by pat_completeness auto
termination
  by (relation "measure (\<lambda>(H, data, fileID, chunkCount, chunkSize, i, chunks). nat (chunkCount - i))")
     auto

declare chunkFileInMemory_loop.simps [simp del]

definition chunkFileInMemory ::
  "(byte list \<Rightarrow> string) \<Rightarrow> byte list \<Rightarrow> string \<Rightarrow> int \<Rightarrow> FileChunk list result" where
  "chunkFileInMemory H data fileID chunkCount =
     (let fileSize = int (length data) in
      if chunkCount = 0 then Panic DivideByZero
      else
        (let chunkSize = go_div fileSize chunkCount in
         if makeslice_len_out_of_range sizeof_FileChunk chunkCount
         then Panic MakeSliceLenOutOfRange
         else chunkFileInMemory_loop H data fileID chunkCount chunkSize 0
                (replicate (nat chunkCount) zeroChunk)))"

section \<open>The disk-based split (pkg/chunking, ChunkFile)\<close>

subsection \<open>The file system\<close>

text \<open>
  A file system holds regular files by path. \<open>denied\<close> lists the paths on which
  \<^verbatim>\<open>os.Create\<close> fails, and \<open>space\<close> is the number of bytes that can still be written
  before a write fails. Opening fails on a path that holds no file. \<^verbatim>\<open>Stat\<close> on an open
  file and reading the whole of it do not fail in this model (their error branches stay in
  \<open>ChunkFile\<close>); \<^verbatim>\<open>io.ReadFull\<close> fails when fewer bytes are left than asked for.
\<close>

record filesystem =
  files :: "string \<rightharpoonup> byte list"
  denied :: "string list"
  space :: nat

record file_handle =
  fh_path :: string
  fh_data :: "byte list"
  fh_pos :: nat

record file_info =
  fi_Name :: string
  fi_Size :: int

text \<open>The last element of a path, as \<^verbatim>\<open>os\<close> computes the name that \<^verbatim>\<open>Stat\<close> reports:
  trailing slashes are dropped (never the first character), then everything up to the last
  slash before the final character.\<close>

function strip_slashes :: "string \<Rightarrow> string" where
  "strip_slashes p =
     (if 1 < length p \<and> last p = CHR ''/'' then strip_slashes (butlast p) else p)"
  by pat_completeness auto
termination
  by (relation "measure length") auto

declare strip_slashes.simps [simp del]

definition basename :: "string \<Rightarrow> string" where
  "basename p =
     (case rev (strip_slashes p) of
        [] \<Rightarrow> []
      | c # r \<Rightarrow> rev (c # takeWhile (\<lambda>x. x \<noteq> CHR ''/'') r))"

definition os_Open :: "filesystem \<Rightarrow> string \<Rightarrow> file_handle option" where
  "os_Open fs p =
     (case files fs p of
        None \<Rightarrow> None
      | Some d \<Rightarrow> Some \<lparr>fh_path = p, fh_data = d, fh_pos = 0\<rparr>)"

definition file_Stat :: "file_handle \<Rightarrow> file_info option" where
  "file_Stat f = Some \<lparr>fi_Name = basename (fh_path f), fi_Size = int (length (fh_data f))\<rparr>"

definition file_Seek0 :: "file_handle \<Rightarrow> file_handle" where
  "file_Seek0 f = f\<lparr>fh_pos := 0\<rparr>"

text \<open>\<^verbatim>\<open>io.Copy(hasher, file)\<close> followed by \<^verbatim>\<open>hasher.Sum\<close>: the digest of everything from
  the current position to the end, which leaves the position at the end.\<close>

definition io_Copy_sha256 ::
  "(byte list \<Rightarrow> string) \<Rightarrow> file_handle \<Rightarrow> (string \<times> file_handle) option" where
  "io_Copy_sha256 H f =
     Some (H (drop (fh_pos f) (fh_data f)), f\<lparr>fh_pos := max (fh_pos f) (length (fh_data f))\<rparr>)"

text \<open>\<^verbatim>\<open>io.ReadFull(file, buf)\<close> with \<open>len(buf) = n\<close>: exactly \<open>n\<close> bytes or an error; a
  buffer of length 0 is filled without reading, also at the end of the file.\<close>

definition io_ReadFull :: "file_handle \<Rightarrow> nat \<Rightarrow> (byte list \<times> file_handle) option" where
  "io_ReadFull f n =
     (if n = 0 then Some ([], f)
      else if fh_pos f + n \<le> length (fh_data f)
      then Some (take n (drop (fh_pos f) (fh_data f)), f\<lparr>fh_pos := fh_pos f + n\<rparr>)
      else None)"

subsection \<open>ChunkFile\<close>

function ChunkFile_loop ::
  "(byte list \<Rightarrow> string) \<Rightarrow> string \<Rightarrow> int \<Rightarrow> int \<Rightarrow> int \<Rightarrow> int \<Rightarrow> file_handle
     \<Rightarrow> FileMetadata \<Rightarrow> FileMetadata result" where
  "ChunkFile_loop H fileID chunkCount chunkSize remainder i file metadata =
     (if i < chunkCount then
        (let currentChunkSize =
               (if i = chunkCount - 1 then chunkSize + remainder else chunkSize)
         in if makeslice_len_out_of_range 1 currentChunkSize then Panic MakeSliceLenOutOfRange
            else
              (case io_ReadFull file (nat currentChunkSize) of
                 None \<Rightarrow> Err (ErrReadChunk i)
               | Some (chunkData, file') \<Rightarrow>
                   ChunkFile_loop H fileID chunkCount chunkSize remainder (i + 1) file'
                     (metadata\<lparr>Chunks := (Chunks metadata)
                        [nat i := \<lparr>ID = chunk_id fileID i, Index = i, FileID = fileID,
                                   Size = currentChunkSize, Checksum = H chunkData,
                                   Data = chunkData\<rparr>]\<rparr>)))
      else Ok metadata)"
  by pat_completeness auto
termination
  by (relation "measure (\<lambda>(H, fileID, chunkCount, chunkSize, remainder, i, file, metadata).
        nat (chunkCount - i))") auto

declare ChunkFile_loop.simps [simp del]

definition ChunkFile ::
  "(byte list \<Rightarrow> string) \<Rightarrow> filesystem \<Rightarrow> string \<Rightarrow> int \<Rightarrow> string \<Rightarrow> FileMetadata result" where
  "ChunkFile H fs filePath chunkCount fileID =
     (case os_Open fs filePath of
        None \<Rightarrow> Err ErrOpenFile
      | Some file \<Rightarrow>
          (case file_Stat file of
             None \<Rightarrow> Err ErrStat
           | Some fileInfo \<Rightarrow>
               (let fileSize = fi_Size fileInfo in
                if chunkCount = 0 then Panic DivideByZero
                else
                  (let chunkSize = go_div fileSize chunkCount;
                       remainder = go_rem fileSize chunkCount
                   in case io_Copy_sha256 H (file_Seek0 file) of
                        None \<Rightarrow> Err ErrFileChecksum
                      | Some (fileChecksum, file1) \<Rightarrow>
                          if makeslice_len_out_of_range sizeof_FileChunk chunkCount
                          then Panic MakeSliceLenOutOfRange
                          else ChunkFile_loop H fileID chunkCount chunkSize remainder 0
                                 (file_Seek0 file1)
                                 \<lparr>mID = fileID, OriginalName = fi_Name fileInfo,
                                  mSize = fileSize, mChecksum = fileChecksum,
                                  ChunkCount = chunkCount,
                                  Chunks = replicate (nat chunkCount) zeroChunk,
                                  ContentType = []\<rparr>))))"

section \<open>Reassembly on disk (pkg/chunking, ReconstructFile)\<close>

text \<open>
  The source sorts the caller's slice in place with two nested loops that exchange
  \<open>chunks[i]\<close> and \<open>chunks[j]\<close> whenever \<open>chunks[i].Index > chunks[j].Index\<close>.
  The inner loop runs \<open>j\<close> from \<open>i + 1\<close>, the outer loop runs \<open>i\<close> from 0.
\<close>

function sortByIndex_inner :: "nat \<Rightarrow> nat \<Rightarrow> FileChunk list \<Rightarrow> FileChunk list" where
  "sortByIndex_inner i j chunks =
     (if j < length chunks then
        sortByIndex_inner i (j + 1)
          (if Index (chunks ! i) > Index (chunks ! j)
           then chunks[i := chunks ! j, j := chunks ! i]
           else chunks)
      else chunks)"
  by pat_completeness auto
termination
  by (relation "measure (\<lambda>(i, j, chunks). length chunks - j)") auto

declare sortByIndex_inner.simps [simp del]

lemma length_sortByIndex_inner [simp]:
  "length (sortByIndex_inner i j chunks) = length chunks"
  by (induction i j chunks rule: sortByIndex_inner.induct)
     (subst sortByIndex_inner.simps, simp)

function sortByIndex_outer :: "nat \<Rightarrow> FileChunk list \<Rightarrow> FileChunk list" where
  "sortByIndex_outer i chunks =
     (if i < length chunks
      then sortByIndex_outer (i + 1) (sortByIndex_inner i (i + 1) chunks)
      else chunks)"
  by pat_completeness auto
termination
  by (relation "measure (\<lambda>(i, chunks). length chunks - i)") auto

declare sortByIndex_outer.simps [simp del]

text \<open>\<^verbatim>\<open>for i, chunk := range chunks { if chunk.Index != i { return error } }\<close>:
  the first position whose chunk does not carry that position as its index.\<close>

fun checkIndices :: "nat \<Rightarrow> FileChunk list \<Rightarrow> nat option" where
  "checkIndices i [] = None"
| "checkIndices i (chunk # rest) =
     (if Index chunk \<noteq> int i then Some i else checkIndices (i + 1) rest)"

text \<open>\<^verbatim>\<open>os.Create\<close> truncates or creates the file, unless the path is denied.
  A write of more bytes than there is space for writes what fits and fails.\<close>

definition os_Create :: "filesystem \<Rightarrow> string \<Rightarrow> filesystem option" where
  "os_Create fs p =
     (if p \<in> set (denied fs) then None else Some (fs\<lparr>files := (files fs)(p \<mapsto> [])\<rparr>))"

definition file_Write :: "filesystem \<Rightarrow> string \<Rightarrow> byte list \<Rightarrow> bool \<times> filesystem" where
  "file_Write fs p bs =
     (let old = (case files fs p of None \<Rightarrow> [] | Some d \<Rightarrow> d) in
      if length bs \<le> space fs
      then (True, fs\<lparr>files := (files fs)(p \<mapsto> old @ bs), space := space fs - length bs\<rparr>)
      else (False, fs\<lparr>files := (files fs)(p \<mapsto> old @ take (space fs) bs), space := 0\<rparr>))"

fun writeChunks :: "filesystem \<Rightarrow> string \<Rightarrow> FileChunk list \<Rightarrow> error option \<times> filesystem" where
  "writeChunks fs p [] = (None, fs)"
| "writeChunks fs p (chunk # rest) =
     (case file_Write fs p (Data chunk) of
        (False, fs') \<Rightarrow> (Some (ErrWriteChunk (Index chunk)), fs')
      | (True, fs') \<Rightarrow> writeChunks fs' p rest)"

text \<open>The result is the returned error (if any), the caller's slice as the sort left it,
  and the file system afterwards.\<close>

definition ReconstructFile ::
  "filesystem \<Rightarrow> FileChunk list \<Rightarrow> string \<Rightarrow> error option \<times> FileChunk list \<times> filesystem" where
  "ReconstructFile fs chunks outputPath =
     (if length chunks = 0 then (Some ErrNoChunks, chunks, fs)
      else
        (let sorted_chunks = sortByIndex_outer 0 chunks in
         case checkIndices 0 sorted_chunks of
           Some i \<Rightarrow> (Some (ErrMissingChunk (int i)), sorted_chunks, fs)
         | None \<Rightarrow>
             (case os_Create fs outputPath of
                None \<Rightarrow> (Some ErrCreateOutput, sorted_chunks, fs)
              | Some fs1 \<Rightarrow>
                  (case writeChunks fs1 outputPath sorted_chunks of
                     (r, fs2) \<Rightarrow> (r, sorted_chunks, fs2)))))"

section \<open>Metadata validation (pkg/chunking, ValidateFileMetadata)\<close>

text \<open>\<open>totalSize\<close> is an \<^verbatim>\<open>int64\<close>: each addition wraps.\<close>

fun ValidateFileMetadata_loop :: "string \<Rightarrow> nat \<Rightarrow> int \<Rightarrow> FileChunk list \<Rightarrow> error + int" where
  "ValidateFileMetadata_loop fid i totalSize [] = Inr totalSize"
| "ValidateFileMetadata_loop fid i totalSize (chunk # rest) =
     (if Index chunk \<noteq> int i then Inl (ErrWrongIndex (int i) (Index chunk))
      else if FileID chunk \<noteq> fid then Inl (ErrWrongFileID (int i))
      else ValidateFileMetadata_loop fid (i + 1) (wrap64 (totalSize + Size chunk)) rest)"

definition ValidateFileMetadata :: "FileMetadata \<Rightarrow> error option" where
  "ValidateFileMetadata metadata =
     (if int (length (Chunks metadata)) \<noteq> ChunkCount metadata then Some ErrChunkCountMismatch
      else
        (case ValidateFileMetadata_loop (mID metadata) 0 0 (Chunks metadata) of
           Inl e \<Rightarrow> Some e
         | Inr totalSize \<Rightarrow>
             if totalSize \<noteq> mSize metadata then Some ErrTotalSize else None))"

section \<open>The storage node (pkg/storage/memory_storage.go and its handlers)\<close>

type_synonym MemoryStorage = "string \<rightharpoonup> FileChunk"

definition MemoryStorage_GetChunk :: "MemoryStorage \<Rightarrow> string \<Rightarrow> error + FileChunk" where
  "MemoryStorage_GetChunk ms chunkID =
     (case ms chunkID of
        None \<Rightarrow> Inl ErrChunkNotFound
      | Some chunk \<Rightarrow>
          Inr \<lparr>ID = ID chunk, Index = Index chunk, FileID = FileID chunk, Size = Size chunk,
               Checksum = Checksum chunk, Data = Data chunk\<rparr>)"

definition MemoryStorage_DeleteChunk :: "MemoryStorage \<Rightarrow> string \<Rightarrow> error option \<times> MemoryStorage" where
  "MemoryStorage_DeleteChunk ms chunkID =
     (case ms chunkID of
        None \<Rightarrow> (Some ErrChunkNotFound, ms)
      | Some chunk \<Rightarrow> (None, ms(chunkID := None)))"

text \<open>The handlers answer with a status code. \<open>getChunk\<close> compares the error text with
  the not-found message and answers 404 for it; \<open>deleteChunk\<close> answers 500 for every
  error.\<close>

definition getChunk :: "MemoryStorage \<Rightarrow> string \<Rightarrow> nat \<times> FileChunk option" where
  "getChunk ms chunkID =
     (case MemoryStorage_GetChunk ms chunkID of
        Inl err \<Rightarrow> (if err = ErrChunkNotFound then (404, None) else (500, None))
      | Inr chunk \<Rightarrow> (200, Some chunk))"

definition deleteChunk :: "MemoryStorage \<Rightarrow> string \<Rightarrow> nat \<times> MemoryStorage" where
  "deleteChunk ms chunkID =
     (case MemoryStorage_DeleteChunk ms chunkID of
        (Some err, ms') \<Rightarrow> (500, ms')
      | (None, ms') \<Rightarrow> (200, ms'))"

section \<open>The coordinator (cmd/api/main.go)\<close>

subsection \<open>The network and the storage client (pkg/storage/client.go)\<close>

text \<open>
  The transport is outside the repository. What a storage server answers is given by the
  environment: for a client (its base URL) and a request, either no response at all (a
  transport failure) or a status code, with the decoded chunk for a successful fetch
  (\<open>None\<close> when the body does not decode).
\<close>

record network =
  post_chunk :: "string \<Rightarrow> FileChunk \<Rightarrow> nat option"
  get_chunk :: "string \<Rightarrow> string \<Rightarrow> (nat \<times> FileChunk option) option"

definition StorageClient_StoreChunk :: "network \<Rightarrow> string \<Rightarrow> FileChunk \<Rightarrow> error option" where
  "StorageClient_StoreChunk net client chunk =
     (case post_chunk net client chunk of
        None \<Rightarrow> Some ErrTransport
      | Some status \<Rightarrow> if status \<noteq> 200 then Some (ErrServerStatus status) else None)"

definition StorageClient_GetChunk :: "network \<Rightarrow> string \<Rightarrow> string \<Rightarrow> error + FileChunk" where
  "StorageClient_GetChunk net client chunkID =
     (case get_chunk net client chunkID of
        None \<Rightarrow> Inl ErrTransport
      | Some (status, body) \<Rightarrow>
          if status \<noteq> 200 then Inl (ErrServerStatus status)
          else (case body of None \<Rightarrow> Inl ErrDecode | Some chunk \<Rightarrow> Inr chunk))"

subsection \<open>Fan-out\<close>

text \<open>
  One goroutine per chunk, joined by a wait group. The goroutines finish in an order the
  scheduler chooses: \<open>picks\<close> names, at each step, which of the goroutines still running
  finishes next (modulo their number, and the first one when \<open>picks\<close> is used up), so every
  list of picks is a schedule and every order is the order of some list.
\<close>

function run_order :: "nat list \<Rightarrow> 'a list \<Rightarrow> 'a list" where
  "run_order picks tasks =
     (if tasks = [] then []
      else
        (let k = (case picks of [] \<Rightarrow> 0 | p # _ \<Rightarrow> p mod length tasks)
         in (tasks ! k) # run_order (tl picks) (take k tasks @ drop (Suc k) tasks)))"
  by pat_completeness auto
termination
proof (relation "measure (\<lambda>(picks, tasks). length tasks)")
  show "wf (measure (\<lambda>(picks, tasks). length tasks))" by simp
next
  fix picks :: "nat list" and tasks :: "'a list" and k :: nat
  assume ne: "tasks \<noteq> []" and k: "k = (case picks of [] \<Rightarrow> 0 | p # x \<Rightarrow> p mod length tasks)"
  have "k < length tasks" using ne k by (cases picks) simp_all
  then show "((tl picks, take k tasks @ drop (Suc k) tasks), picks, tasks)
               \<in> measure (\<lambda>(picks, tasks). length tasks)"
    by simp
qed

declare run_order.simps [simp del]

text \<open>The body of the goroutine of \<open>distributeChunks\<close>: what it sends on the error
  channel, if anything.\<close>

definition storeTask :: "network \<Rightarrow> string list \<Rightarrow> nat \<times> FileChunk \<Rightarrow> error option" where
  "storeTask net storageClients task =
     (case task of (chunkIndex, chunkData) \<Rightarrow>
        (let serverIndex = chunkIndex mod length storageClients;
             client = storageClients ! serverIndex
         in case StorageClient_StoreChunk net client chunkData of
              Some err \<Rightarrow> Some (ErrStoreChunk (int chunkIndex) (int serverIndex) err)
            | None \<Rightarrow> None))"

text \<open>With no storage client the modulo in the goroutine divides by zero; a panic in a
  goroutine ends the process. Otherwise the first error on the channel is returned.\<close>

definition distributeChunks ::
  "network \<Rightarrow> nat list \<Rightarrow> string list \<Rightarrow> FileMetadata \<Rightarrow> error option result" where
  "distributeChunks net picks storageClients metadata =
     (if Chunks metadata \<noteq> [] \<and> storageClients = [] then Panic DivideByZero
      else
        (let errChan = List.map_filter (storeTask net storageClients)
                         (run_order picks (enumerate 0 (Chunks metadata)))
         in Ok (case errChan of [] \<Rightarrow> None | err # _ \<Rightarrow> Some err)))"

text \<open>The goroutine of \<open>collectChunks\<close> either sends an error or stores the fetched
  chunk at its index.\<close>

definition fetchTask :: "network \<Rightarrow> string list \<Rightarrow> nat \<times> FileChunk \<Rightarrow> error + FileChunk" where
  "fetchTask net storageClients task =
     (case task of (chunkIndex, chunkMetadata) \<Rightarrow>
        (let serverIndex = chunkIndex mod length storageClients;
             client = storageClients ! serverIndex
         in case StorageClient_GetChunk net client (ID chunkMetadata) of
              Inl err \<Rightarrow> Inl (ErrGetChunk (int chunkIndex) (int serverIndex) err)
            | Inr chunk \<Rightarrow> Inr chunk))"

fun collect_run ::
  "network \<Rightarrow> string list \<Rightarrow> (nat \<times> FileChunk) list \<Rightarrow> FileChunk list \<Rightarrow> error list
     \<Rightarrow> FileChunk list \<times> error list" where
  "collect_run net storageClients [] chunks errChan = (chunks, errChan)"
| "collect_run net storageClients (task # rest) chunks errChan =
     (case fetchTask net storageClients task of
        Inl err \<Rightarrow> collect_run net storageClients rest chunks (errChan @ [err])
      | Inr chunk \<Rightarrow> collect_run net storageClients rest (chunks[fst task := chunk]) errChan)"

definition collectChunks ::
  "network \<Rightarrow> nat list \<Rightarrow> string list \<Rightarrow> FileMetadata \<Rightarrow> (error + FileChunk list) result" where
  "collectChunks net picks storageClients metadata =
     (if Chunks metadata \<noteq> [] \<and> storageClients = [] then Panic DivideByZero
      else
        (case collect_run net storageClients (run_order picks (enumerate 0 (Chunks metadata)))
                (replicate (length (Chunks metadata)) zeroChunk) [] of
           (chunks, errChan) \<Rightarrow>
             Ok (case errChan of [] \<Rightarrow> Inr chunks | err # _ \<Rightarrow> Inl err)))"

subsection \<open>Reassembly in memory\<close>

fun reconstruct_totalSize :: "int \<Rightarrow> FileChunk list \<Rightarrow> int" where
  "reconstruct_totalSize totalSize [] = totalSize"
| "reconstruct_totalSize totalSize (chunk # rest) =
     reconstruct_totalSize (totalSize + int (length (Data chunk))) rest"

fun reconstruct_append :: "byte list \<Rightarrow> FileChunk list \<Rightarrow> byte list" where
  "reconstruct_append fileData [] = fileData"
| "reconstruct_append fileData (chunk # rest) = reconstruct_append (fileData @ Data chunk) rest"

text \<open>\<^verbatim>\<open>make([]byte, 0, totalSize)\<close> panics on a negative capacity; the error result is
  always \<^verbatim>\<open>nil\<close>. (The payloads are all held in memory at this point, each in a buffer
  of its own as the fetch decoded it, so their lengths cannot add up to more than the
  largest allocation.)\<close>

definition reconstructFileInMemory :: "FileChunk list \<Rightarrow> byte list result" where
  "reconstructFileInMemory chunks =
     (let totalSize = reconstruct_totalSize 0 chunks in
      if totalSize < 0 then Panic MakeSliceLenOutOfRange
      else Ok (reconstruct_append [] chunks))"

subsection \<open>The upload and download handlers\<close>

text \<open>
  The server's state is its configuration, its storage clients (base URLs, in the
  configured order) and the metadata map. A handler returns the status code it answers
  with, the body where a claim looks at it, and the server's state afterwards. A panic on
  the handler's own goroutine is caught by the router's recovery middleware, which answers
  500; a panic in a spawned goroutine ends the process (\<open>Panic\<close>).
\<close>

record StreamingAPIServer =
  MaxFileSize :: int
  cfg_ChunkCount :: int
  storageClients :: "string list"
  fileMetadata :: "string \<rightharpoonup> FileMetadata"

text \<open>The multipart form file of an upload: its header fields, and its content unless
  reading it fails.\<close>

record form_file =
  Filename :: string
  header_Size :: int
  header_ContentType :: string
  content :: "byte list option"

definition streamingUploadFile ::
  "(byte list \<Rightarrow> string) \<Rightarrow> network \<Rightarrow> nat list \<Rightarrow> StreamingAPIServer \<Rightarrow> string
     \<Rightarrow> form_file option \<Rightarrow> (nat \<times> FileMetadata option \<times> StreamingAPIServer) result" where
  "streamingUploadFile H net picks s fileID request =
     (case request of
        None \<Rightarrow> Ok (400, None, s)
      | Some header \<Rightarrow>
          if header_Size header > MaxFileSize s then Ok (400, None, s)
          else
            (case content header of
               None \<Rightarrow> Ok (500, None, s)
             | Some fileData \<Rightarrow>
                 (case chunkFileInMemory H fileData fileID (cfg_ChunkCount s) of
                    Panic p \<Rightarrow> Ok (500, None, s)
                  | Err e \<Rightarrow> Ok (500, None, s)
                  | Ok chunks \<Rightarrow>
                      (let metadata =
                             \<lparr>mID = fileID, OriginalName = Filename header,
                              mSize = int (length fileData), mChecksum = H fileData,
                              ChunkCount = int (length chunks), Chunks = chunks,
                              ContentType = header_ContentType header\<rparr>
                       in case distributeChunks net picks (storageClients s) metadata of
                            Panic p \<Rightarrow> Panic p
                          | Err e \<Rightarrow> Err e
                          | Ok (Some err) \<Rightarrow> Ok (500, None, s)
                          | Ok None \<Rightarrow>
                              Ok (200, Some metadata,
                                  s\<lparr>fileMetadata := (fileMetadata s)(fileID \<mapsto> metadata)\<rparr>)))))"

definition streamingDownloadFile ::
  "network \<Rightarrow> nat list \<Rightarrow> StreamingAPIServer \<Rightarrow> string \<Rightarrow> (nat \<times> byte list option) result" where
  "streamingDownloadFile net picks s fileID =
     (case fileMetadata s fileID of
        None \<Rightarrow> Ok (404, None)
      | Some metadata \<Rightarrow>
          (case collectChunks net picks (storageClients s) metadata of
             Panic p \<Rightarrow> Panic p
           | Err e \<Rightarrow> Err e
           | Ok (Inl err) \<Rightarrow> Ok (500, None)
           | Ok (Inr chunks) \<Rightarrow>
               (case reconstructFileInMemory chunks of
                  Panic p \<Rightarrow> Ok (500, None)
                | Err e \<Rightarrow> Ok (500, None)
                | Ok fileData \<Rightarrow> Ok (200, Some fileData))))"

section \<open>A digest for concrete runs\<close>

text \<open>Every statement below holds for an arbitrary digest function \<open>H\<close>. Where a
  statement is run on a concrete input, this stand-in takes the place of SHA-256.\<close>

definition sample_digest :: "byte list \<Rightarrow> string" where
  "sample_digest bs = utoa (length bs)"

section \<open>Notions used in the proofs, and inputs for concrete runs\<close>

text \<open>The \<open>i\<close>-th piece of \<open>data\<close> cut into \<open>K\<close> pieces, and the chunk record built
  from it; a small file system (the path \<open>/ro\<close> cannot be created) and a payload.\<close>

definition piece :: "byte list \<Rightarrow> int \<Rightarrow> nat \<Rightarrow> byte list" where
  "piece data K i =
     (let cs = length data div nat K
      in if int i = K - 1 then drop (i * cs) data else take cs (drop (i * cs) data))"

definition mk_chunk :: "(byte list \<Rightarrow> string) \<Rightarrow> string \<Rightarrow> byte list \<Rightarrow> int \<Rightarrow> nat \<Rightarrow> FileChunk" where
  "mk_chunk H fileID data K i =
     \<lparr>ID = chunk_id fileID (int i), Index = int i, FileID = fileID,
      Size = int (length (piece data K i)), Checksum = H (piece data K i),
      Data = piece data K i\<rparr>"

definition sample_data :: "byte list" where
  "sample_data = [1, 2, 3, 4, 5, 6, 7]"

definition sample_fs :: filesystem where
  "sample_fs = \<lparr>files = [''in.txt'' \<mapsto> sample_data], denied = [''/ro''], space = 100\<rparr>"

text \<open>A file one byte longer than the largest allocation.\<close>

definition oversized_data :: "byte list" where
  "oversized_data = replicate (nat (maxAlloc + 1)) 0"

definition oversized_fs :: filesystem where
  "oversized_fs = \<lparr>files = [''big.bin'' \<mapsto> oversized_data], denied = [], space = 0\<rparr>"

text \<open>A network whose nodes answer every fetch with the same chunk, and a server that
  knows one file.\<close>

definition unchecked_net :: network where
  "unchecked_net =
     \<lparr>post_chunk = (\<lambda>client chunk. None),
      get_chunk = (\<lambda>client chunkID.
         Some (200, Some \<lparr>ID = chunkID, Index = 7, FileID = ''other'', Size = 99,
                           Checksum = ''bogus'', Data = [1, 2]\<rparr>))\<rparr>"

definition unchecked_server :: StreamingAPIServer where
  "unchecked_server =
     \<lparr>MaxFileSize = 1000, cfg_ChunkCount = 2, storageClients = [''http://a'', ''http://b''],
      fileMetadata =
        [''f'' \<mapsto> \<lparr>mID = ''f'', OriginalName = ''x.txt'', mSize = 3, mChecksum = ''3'',
                    ChunkCount = 2,
                    Chunks = [\<lparr>ID = ''f_chunk_0'', Index = 0, FileID = ''f'', Size = 1,
                               Checksum = ''1'', Data = []\<rparr>,
                              \<lparr>ID = ''f_chunk_1'', Index = 1, FileID = ''f'', Size = 2,
                               Checksum = ''2'', Data = []\<rparr>],
                    ContentType = []\<rparr>]\<rparr>"

text \<open>Metadata whose sizes add up to \<open>2 ^ 64\<close>, and consistent metadata of two chunks
  (with a checksum that is no digest).\<close>

definition overflow_metadata :: FileMetadata where
  "overflow_metadata =
     \<lparr>mID = ''f'', OriginalName = ''x'', mSize = 0, mChecksum = ''c'', ChunkCount = 3,
      Chunks = [\<lparr>ID = ''f_chunk_0'', Index = 0, FileID = ''f'', Size = 9223372036854775807,
                 Checksum = ''a'', Data = []\<rparr>,
                \<lparr>ID = ''f_chunk_1'', Index = 1, FileID = ''f'', Size = 9223372036854775807,
                 Checksum = ''a'', Data = []\<rparr>,
                \<lparr>ID = ''f_chunk_2'', Index = 2, FileID = ''f'', Size = 2,
                 Checksum = ''a'', Data = []\<rparr>],
      ContentType = []\<rparr>"

definition good_metadata :: FileMetadata where
  "good_metadata =
     \<lparr>mID = ''f'', OriginalName = ''x'', mSize = 5, mChecksum = ''not the digest'', ChunkCount = 2,
      Chunks = [\<lparr>ID = ''f_chunk_0'', Index = 0, FileID = ''f'', Size = 2,
                 Checksum = ''a'', Data = [1, 2]\<rparr>,
                \<lparr>ID = ''f_chunk_1'', Index = 1, FileID = ''f'', Size = 3,
                 Checksum = ''a'', Data = [3, 4, 5]\<rparr>],
      ContentType = []\<rparr>"

text \<open>Chunk lists for concrete runs: indices 1, 0 (complete, out of order), indices 2, 0
  (index 1 missing) and indices 0, 1, 0 (a duplicate).\<close>

definition chunk_at :: "int \<Rightarrow> byte list \<Rightarrow> FileChunk" where
  "chunk_at i d = \<lparr>ID = chunk_id ''f'' i, Index = i, FileID = ''f'', Size = int (length d),
                  Checksum = sample_digest d, Data = d\<rparr>"

definition shuffled_chunks :: "FileChunk list" where
  "shuffled_chunks = [chunk_at 1 [3, 4], chunk_at 0 [1, 2]]"

definition gapped_chunks :: "FileChunk list" where
  "gapped_chunks = [chunk_at 2 [5], chunk_at 0 [1, 2]]"

definition duplicate_chunks :: "FileChunk list" where
  "duplicate_chunks = [chunk_at 0 [1], chunk_at 1 [2], chunk_at 0 [3]]"

text \<open>A network on which the server \<open>http://b\<close> cannot be reached and every other server
  accepts every chunk, one on which every server accepts, and an upload of three bytes to a
  coordinator with two storage clients.\<close>

definition partial_net :: network where
  "partial_net =
     \<lparr>post_chunk = (\<lambda>client chunk. if client = ''http://b'' then None else Some 200),
      get_chunk = (\<lambda>client chunkID. None)\<rparr>"

definition accepting_net :: network where
  "accepting_net =
     \<lparr>post_chunk = (\<lambda>client chunk. Some 200), get_chunk = (\<lambda>client chunkID. None)\<rparr>"

definition empty_server :: StreamingAPIServer where
  "empty_server =
     \<lparr>MaxFileSize = 1000, cfg_ChunkCount = 2, storageClients = [''http://a'', ''http://b''],
      fileMetadata = Map.empty\<rparr>"

definition small_upload :: form_file where
  "small_upload =
     \<lparr>Filename = ''x.txt'', header_Size = 3, header_ContentType = ''text/plain'',
      content = Some [1, 2, 3]\<rparr>"

section \<open>The split functions\<close>

lemma go_div_nonneg: "0 \<le> a \<Longrightarrow> 0 < b \<Longrightarrow> go_div a b = a div b"
  by (simp add: go_div_def sgn_if)

lemma go_rem_nonneg: "0 \<le> a \<Longrightarrow> 0 < b \<Longrightarrow> go_rem a b = a mod b"
  by (simp add: go_rem_def go_div_nonneg minus_mult_div_eq_mod)

lemma prefix_pieces_le:
  fixes n k K :: nat
  assumes "k \<le> K" 
  shows "k * (n div K) \<le> n"
proof -
  have "k * (n div K) \<le> K * (n div K)" using assms by (simp add: mult_le_mono1)
  also have "\<dots> \<le> n" by simp
  finally show ?thesis .
qed

lemma slice_nat:
  "s \<le> e \<Longrightarrow> e \<le> length data \<Longrightarrow> slice data (int s) (int e) = Ok (take (e - s) (drop s data))"
  by (simp add: slice_def nat_diff_distrib')

lemma slice_piece:
  assumes "0 < K" "0 \<le> i" "i < K"
  shows "slice data (i * (int (length data) div K)) 
           (if i = K - 1 then int (length data) else i * (int (length data) div K) + int (length data) div K)
         = Ok (piece data K (nat i))"
proof -
  define n where "n = nat i"
  define cs where "cs = length data div nat K"
  have i: "i = int n" using assms by (simp add: n_def)
  have cs: "int (length data) div K = int cs" using assms by (simp add: cs_def zdiv_int)
  have "n < nat K" using assms by (simp add: n_def)
  then have le: "n * cs \<le> length data" "n * cs + cs \<le> length data"
    using prefix_pieces_le[of n "nat K" "length data"] prefix_pieces_le[of "Suc n" "nat K" "length data"]
    by (simp_all add: cs_def)
  show ?thesis
  proof (cases "K = int n + 1")
    case True
    have "slice data (int (n * cs)) (int (length data)) = Ok (take (length data - n * cs) (drop (n * cs) data))"
      using le(1) by (intro slice_nat) simp_all
    moreover have "piece data K n = drop (n * cs) data"
      using True by (simp add: piece_def cs_def Let_def)
    ultimately show ?thesis using True unfolding cs i by simp
  next
    case False
    have "slice data (int (n * cs)) (int (n * cs + cs)) = Ok (take (n * cs + cs - n * cs) (drop (n * cs) data))"
      using le(2) by (intro slice_nat) simp_all
    moreover have "piece data K n = take cs (drop (n * cs) data)"
      using False by (simp add: piece_def cs_def Let_def)
    moreover have "int n \<noteq> K - 1" using False by simp
    ultimately show ?thesis unfolding cs i by simp
  qed
qed

lemma chunkFileInMemory_loop_eq:
  assumes "0 < K" "0 \<le> i" "i \<le> K" "length chunks = nat K"
  shows "chunkFileInMemory_loop H data fileID K (int (length data) div K) i chunks
         = Ok (take (nat i) chunks @ map (mk_chunk H fileID data K) [nat i..<nat K])"
  using assms
proof (induction H data fileID K "int (length data) div K" i chunks rule: chunkFileInMemory_loop.induct)
  case (1 H data fileID K i chunks)
  show ?case
  proof (cases "i < K")
    case False
    with 1 have "i = K" by simp
    then show ?thesis using 1 by (subst chunkFileInMemory_loop.simps) simp
  next
    case True
    let ?c = "mk_chunk H fileID data K (nat i)"
    have sl: "slice data (i * (int (length data) div K))
           (if i = K - 1 then int (length data) else i * (int (length data) div K) + int (length data) div K)
         = Ok (piece data K (nat i))"
      using slice_piece[of K i data] True 1(2,3) by simp
    have c: "\<lparr>ID = chunk_id fileID i, Index = i, FileID = fileID,
              Size = int (length (piece data K (nat i))), Checksum = H (piece data K (nat i)),
              Data = piece data K (nat i)\<rparr> = ?c"
      using 1(3) by (simp add: mk_chunk_def)
    have IH: "chunkFileInMemory_loop H data fileID K (int (length data) div K) (i + 1) (chunks[nat i := ?c])
       = Ok (take (nat (i + 1)) (chunks[nat i := ?c]) @ map (mk_chunk H fileID data K) [nat (i + 1)..<nat K])"
      using 1(1)[OF True refl refl refl sl] True 1(2,3,5) unfolding c by simp
    have t: "take (nat (i + 1)) (chunks[nat i := ?c]) = take (nat i) chunks @ [?c]"
      using True 1(3,5) by (simp add: nat_add_distrib take_Suc_conv_app_nth)
    have u: "[nat i..<nat K] = nat i # [nat (i + 1)..<nat K]"
      using True 1(3) by (simp add: nat_add_distrib upt_conv_Cons)
    show ?thesis
      using True IH sl c t u
      by (subst chunkFileInMemory_loop.simps) (simp add: Let_def)
  qed
qed

lemma length_piece:
  assumes "0 < K" "i < nat K"
  shows "length (piece data K i) =
           (if int i = K - 1 then length data div nat K + length data mod nat K
            else length data div nat K)"
proof -
  define cs where "cs = length data div nat K"
  have le: "i * cs + cs \<le> length data"
    using assms prefix_pieces_le[of "Suc i" "nat K" "length data"] by (simp add: cs_def)
  show ?thesis
  proof (cases "K = int i + 1")
    case True
    then have K: "nat K = Suc i" by simp
    have "Suc i * cs + length data mod Suc i = length data"
      unfolding cs_def K by (rule mult_div_mod_eq)
    then have "length data - i * cs = cs + length data mod Suc i" by simp
    then show ?thesis using True K by (simp add: piece_def Let_def cs_def)
  next
    case False
    then have "int i \<noteq> K - 1" by simp
    then show ?thesis using le by (simp add: piece_def Let_def cs_def)
  qed
qed

lemma concat_pieces_prefix:
  assumes "0 < K" "k < nat K"
  shows "concat (map (piece data K) [0..<k]) = take (k * (length data div nat K)) data"
  using assms(2)
proof (induction k)
  case 0
  then show ?case by simp
next
  case (Suc k)
  then have "int k \<noteq> K - 1" by linarith
  then have "piece data K k = take (length data div nat K) (drop (k * (length data div nat K)) data)"
    by (simp add: piece_def Let_def)
  moreover have "concat (map (piece data K) [0..<k]) = take (k * (length data div nat K)) data"
    using Suc by simp
  moreover have "Suc k * (length data div nat K) = k * (length data div nat K) + length data div nat K"
    by simp
  ultimately show ?case by (simp only: upt_Suc_append[OF le0] map_append concat_append take_add)
     simp
qed

lemma concat_pieces:
  assumes "0 < K"
  shows "concat (map (piece data K) [0..<nat K]) = data"
proof -
  obtain k where K: "nat K = Suc k" using assms by (cases "nat K") auto
  then have ik: "int k = K - 1" by linarith
  have "concat (map (piece data K) [0..<k]) = take (k * (length data div nat K)) data"
    using concat_pieces_prefix[OF assms, of k] K by simp
  moreover have "piece data K k = drop (k * (length data div nat K)) data"
    using ik by (simp add: piece_def Let_def)
  ultimately show ?thesis unfolding K by simp
qed

lemma io_ReadFull_ok:
  "fh_pos f + m \<le> length (fh_data f) \<Longrightarrow>
   io_ReadFull f m = Some (take m (drop (fh_pos f) (fh_data f)), f\<lparr>fh_pos := fh_pos f + m\<rparr>)"
  by (cases "m = 0") (simp_all add: io_ReadFull_def)

lemma readfull_piece:
  assumes "0 < K" "0 \<le> i" "i < K" "fh_data f = data"
      and "fh_pos f = nat i * (length data div nat K)"
  shows "io_ReadFull f (nat (if i = K - 1 then int (length data) div K + int (length data) mod K
                              else int (length data) div K))
         = Some (piece data K (nat i),
                 f\<lparr>fh_pos := nat i * (length data div nat K) + length (piece data K (nat i))\<rparr>)"
proof -
  define n where "n = nat i"
  define cs where "cs = length data div nat K"
  define r where "r = length data mod nat K"
  have i: "i = int n" using assms by (simp add: n_def)
  have nK: "n < nat K" using assms by (simp add: n_def)
  have cs: "int (length data) div K = int cs" using assms by (simp add: cs_def zdiv_int)
  have rm: "int (length data) mod K = int r" using assms by (simp add: zmod_int r_def)
  have le: "n * cs + cs \<le> length data"
    using nK prefix_pieces_le[of "Suc n" "nat K" "length data"] by (simp add: cs_def)
  have pos: "fh_pos f = n * cs" using assms(5) by (simp add: n_def cs_def)
  have same: "f\<lparr>fh_pos := n * cs\<rparr> = f" using pos by simp
  show ?thesis
  proof (cases "i = K - 1")
    case True
    with i have ik: "int n = K - 1" by linarith
    then have K: "nat K = Suc n" by linarith
    have "Suc n * cs + r = length data"
      unfolding cs_def r_def K by (rule mult_div_mod_eq)
    then have tot: "length data = n * cs + (cs + r)" by simp
    have p: "piece data K n = drop (n * cs) data"
      using ik by (simp add: piece_def cs_def Let_def)
    have arg: "nat (if i = K - 1 then int (length data) div K + int (length data) mod K
                   else int (length data) div K) = cs + r"
      unfolding cs rm using True by (simp flip: of_nat_add)
    have ldr: "length (drop (n * cs) data) = cs + r" using tot by simp
    have "fh_pos f + (cs + r) \<le> length (fh_data f)" using tot pos assms(4) by simp
    from io_ReadFull_ok[OF this]
    have "io_ReadFull f (cs + r)
       = Some (drop (n * cs) data, f\<lparr>fh_pos := n * cs + length (drop (n * cs) data)\<rparr>)"
      unfolding ldr pos assms(4) using ldr by simp
    then show ?thesis unfolding arg n_def[symmetric] cs_def[symmetric] p .
  next
    case False
    from False i have ik: "int n \<noteq> K - 1" by linarith
    have p: "piece data K n = take cs (drop (n * cs) data)"
      using ik by (simp add: piece_def cs_def Let_def)
    have arg: "nat (if i = K - 1 then int (length data) div K + int (length data) mod K
                   else int (length data) div K) = cs"
      unfolding cs rm using False by simp
    have lt: "length (take cs (drop (n * cs) data)) = cs" using le by simp
    have "fh_pos f + cs \<le> length (fh_data f)" using le pos assms(4) by simp
    from io_ReadFull_ok[OF this]
    have "io_ReadFull f cs
       = Some (take cs (drop (n * cs) data), f\<lparr>fh_pos := n * cs + length (take cs (drop (n * cs) data))\<rparr>)"
      unfolding lt pos assms(4) .
    then show ?thesis unfolding arg n_def[symmetric] cs_def[symmetric] p .
  qed
qed

lemma ChunkFile_loop_eq:
  assumes "0 < K" "0 \<le> i" "i \<le> K" "length (Chunks md) = nat K" "fh_data f = data"
      and "i < K \<longrightarrow> fh_pos f = nat i * (length data div nat K)"
      and "int (length data) \<le> maxAlloc"
  shows "ChunkFile_loop H fileID K (int (length data) div K) (int (length data) mod K) i f md
         = Ok (md\<lparr>Chunks := take (nat i) (Chunks md) @ map (mk_chunk H fileID data K) [nat i..<nat K]\<rparr>)"
  using assms
proof (induction H fileID K "int (length data) div K" "int (length data) mod K" i f md
       rule: ChunkFile_loop.induct)
  case (1 H fileID K i f md)
  let ?cs = "int (length data) div K" and ?rm = "int (length data) mod K"
  show ?case
  proof (cases "i < K")
    case False
    with 1 have "i = K" by simp
    then show ?thesis using 1(5) by (subst ChunkFile_loop.simps) simp
  next
    case True
    let ?ccs = "if i = K - 1 then ?cs + ?rm else ?cs"
    let ?c = "mk_chunk H fileID data K (nat i)"
    let ?f' = "f\<lparr>fh_pos := nat i * (length data div nat K) + length (piece data K (nat i))\<rparr>"
    have ge: "0 \<le> ?cs" "0 \<le> ?rm" using 1(2) by (simp_all add: pos_imp_zdiv_nonneg_iff)
    have e1: "K * ?cs + ?rm = int (length data)" by (rule mult_div_mod_eq)
    have "1 * ?cs \<le> K * ?cs" using 1(2) ge(1) by (intro mult_right_mono) simp_all
    then have e2: "?cs \<le> K * ?cs" by simp
    from e1 e2 ge have "?cs + ?rm \<le> int (length data)" "?cs \<le> int (length data)"
      by linarith+
    then have "0 \<le> ?ccs" "?ccs \<le> maxAlloc" using ge 1(8) by auto
    then have nonneg: "\<not> makeslice_len_out_of_range 1 ?ccs"
      by (simp add: makeslice_len_out_of_range_def)
    have rd: "io_ReadFull f (nat ?ccs) = Some (piece data K (nat i), ?f')"
      using readfull_piece[OF 1(2,3) True 1(6)] 1(7) True by simp
    have sz: "?ccs = int (length (piece data K (nat i)))"
      using length_piece[of K "nat i" data] True 1(2,3)
      by (simp add: zdiv_int zmod_int)
    have c: "\<lparr>ID = chunk_id fileID i, Index = i, FileID = fileID,
              Size = ?ccs, Checksum = H (piece data K (nat i)),
              Data = piece data K (nat i)\<rparr> = ?c"
      using 1(3) sz by (simp add: mk_chunk_def)
    let ?md' = "md\<lparr>Chunks := (Chunks md)[nat i := ?c]\<rparr>"
    have pos': "i + 1 < K \<longrightarrow> fh_pos ?f' = nat (i + 1) * (length data div nat K)"
    proof
      assume "i + 1 < K"
      then have "int (nat i) \<noteq> K - 1" using 1(3) by simp
      then have "length (piece data K (nat i)) = length data div nat K"
        using length_piece[of K "nat i" data] True 1(2,3) by simp
      then show "fh_pos ?f' = nat (i + 1) * (length data div nat K)"
        using 1(3) by (simp add: nat_add_distrib)
    qed
    have IH: "ChunkFile_loop H fileID K ?cs ?rm (i + 1) ?f' ?md'
       = Ok (?md'\<lparr>Chunks := take (nat (i + 1)) (Chunks ?md') @ map (mk_chunk H fileID data K) [nat (i + 1)..<nat K]\<rparr>)"
      using 1(1)[OF True refl nonneg rd refl 1(2)] True 1(3,5,6,8) pos' unfolding c by simp
    have t: "take (nat (i + 1)) ((Chunks md)[nat i := ?c]) = take (nat i) (Chunks md) @ [?c]"
      using True 1(3,5) by (simp add: nat_add_distrib take_Suc_conv_app_nth)
    have u: "[nat i..<nat K] = nat i # [nat (i + 1)..<nat K]"
      using True 1(3) by (simp add: nat_add_distrib upt_conv_Cons)
    show ?thesis
      apply (subst ChunkFile_loop.simps)
      apply (simp only: True if_True Let_def nonneg if_False rd option.case prod.case c IH)
      apply (simp add: t u)
      done
  qed
qed

lemma chunkFileInMemory_eq:
  assumes "0 < K" "K * sizeof_FileChunk \<le> maxAlloc"
  shows "chunkFileInMemory H data fileID K = Ok (map (mk_chunk H fileID data K) [0..<nat K])"
  using assms chunkFileInMemory_loop_eq[of K 0 "replicate (nat K) zeroChunk" H data fileID]
  by (simp add: chunkFileInMemory_def go_div_nonneg makeslice_len_out_of_range_def)

lemma chunkFileInMemory_too_many:
  assumes "0 < K" "maxAlloc < K * sizeof_FileChunk"
  shows "chunkFileInMemory H data fileID K = Panic MakeSliceLenOutOfRange"
  using assms by (simp add: chunkFileInMemory_def makeslice_len_out_of_range_def)

lemma ChunkFile_too_many:
  assumes "0 < K" "maxAlloc < K * sizeof_FileChunk" "files fs p = Some data"
  shows "ChunkFile H fs p K fileID = Panic MakeSliceLenOutOfRange"
  using assms
  by (simp add: ChunkFile_def os_Open_def file_Stat_def io_Copy_sha256_def
      makeslice_len_out_of_range_def)

lemma ChunkFile_eq:
  assumes "0 < K" "K * sizeof_FileChunk \<le> maxAlloc" "files fs p = Some data"
      and "int (length data) \<le> maxAlloc"
  shows "ChunkFile H fs p K fileID =
           Ok \<lparr>mID = fileID, OriginalName = basename p, mSize = int (length data),
               mChecksum = H data, ChunkCount = K,
               Chunks = map (mk_chunk H fileID data K) [0..<nat K], ContentType = []\<rparr>"
proof -
  let ?f = "\<lparr>fh_path = p, fh_data = data, fh_pos = length data\<rparr>"
  let ?md = "\<lparr>mID = fileID, OriginalName = basename p, mSize = int (length data),
               mChecksum = H data, ChunkCount = K,
               Chunks = replicate (nat K) zeroChunk, ContentType = []\<rparr>"
  have "ChunkFile_loop H fileID K (int (length data) div K) (int (length data) mod K) 0
          (file_Seek0 ?f) ?md
        = Ok (?md\<lparr>Chunks := take (nat 0) (Chunks ?md) @ map (mk_chunk H fileID data K) [nat 0..<nat K]\<rparr>)"
    using assms(1,4) by (intro ChunkFile_loop_eq) (simp_all add: file_Seek0_def)
  then show ?thesis
    using assms
    by (simp add: ChunkFile_def os_Open_def file_Stat_def io_Copy_sha256_def file_Seek0_def
        go_div_nonneg go_rem_nonneg makeslice_len_out_of_range_def)
qed

lemma map_pieces_length:
  assumes "0 < K"
  shows "map (\<lambda>i. int (length (piece data K i))) [0..<nat K] =
         replicate (nat K - 1) (int (length data) div K)
           @ [int (length data) div K + int (length data) mod K]"
proof -
  obtain k where K: "nat K = Suc k" using assms by (cases "nat K") auto
  then have ik: "int k = K - 1" by linarith
  have cs: "int (length data) div K = int (length data div nat K)"
    and rm: "int (length data) mod K = int (length data mod nat K)"
    using assms by (simp_all add: zdiv_int zmod_int)
  have "map (\<lambda>i. int (length (piece data K i))) [0..<k] =
        map (\<lambda>i. int (length data) div K) [0..<k]"
  proof (rule map_cong[OF refl])
    fix i assume "i \<in> set [0..<k]"
    then have "i < nat K" "int i \<noteq> K - 1" using K ik by auto
    then show "int (length (piece data K i)) = int (length data) div K"
      using length_piece[OF assms, of i data] cs by simp
  qed
  moreover have "int (length (piece data K k)) = int (length data) div K + int (length data) mod K"
    using length_piece[OF assms, of k data] K ik cs rm by simp
  ultimately show ?thesis unfolding K by (simp add: map_replicate_const)
qed

lemma sum_sizes:
  assumes "0 < K"
  shows "sum_list (replicate (nat K - 1) (int (length data) div K)
           @ [int (length data) div K + int (length data) mod K]) = int (length data)"
proof -
  have "int (nat K - 1) = K - 1" using assms by simp
  then have "sum_list (replicate (nat K - 1) (int (length data) div K)
           @ [int (length data) div K + int (length data) mod K])
      = (K - 1) * (int (length data) div K) + (int (length data) div K + int (length data) mod K)"
    by (simp add: sum_list_replicate)
  also have "\<dots> = K * (int (length data) div K) + int (length data) mod K"
    by (simp add: algebra_simps)
  also have "\<dots> = int (length data)" by simp
  finally show ?thesis .
qed

lemma Size_mk_chunk: "Size \<circ> mk_chunk H fileID data K = (\<lambda>i. int (length (piece data K i)))"
  by (rule ext) (simp add: mk_chunk_def)

lemma len_Data_mk_chunk:
  "(\<lambda>c. int (length (Data c))) \<circ> mk_chunk H fileID data K = (\<lambda>i. int (length (piece data K i)))"
  by (rule ext) (simp add: mk_chunk_def)

lemma Data_mk_chunk: "Data \<circ> mk_chunk H fileID data K = piece data K"
  by (rule ext) (simp add: mk_chunk_def)

lemma sample_within_limits:
  "(3::int) * sizeof_FileChunk \<le> maxAlloc" "(9::int) * sizeof_FileChunk \<le> maxAlloc"
  "(2::int) * sizeof_FileChunk \<le> maxAlloc"
  "int (length sample_data) \<le> maxAlloc" "files sample_fs ''in.txt'' = Some sample_data"
  by (simp_all add: sizeof_FileChunk_def maxAlloc_def sample_data_def sample_fs_def)

lemma length_oversized_data: "int (length oversized_data) = maxAlloc + 1"
  by (simp add: oversized_data_def maxAlloc_def)

lemma ChunkFile_oversized:
  "ChunkFile H oversized_fs ''big.bin'' 1 fileID = Panic MakeSliceLenOutOfRange"
proof -
  have m: "\<not> makeslice_len_out_of_range sizeof_FileChunk 1"
    by (simp add: makeslice_len_out_of_range_def sizeof_FileChunk_def maxAlloc_def)
  have b: "makeslice_len_out_of_range 1 (go_div (maxAlloc + 1) 1 + go_rem (maxAlloc + 1) 1)"
    by (simp add: makeslice_len_out_of_range_def go_div_def go_rem_def maxAlloc_def)
  have "ChunkFile_loop H fileID 1 (go_div (maxAlloc + 1) 1) (go_rem (maxAlloc + 1) 1) 0 f md
          = Panic MakeSliceLenOutOfRange" for f md
    using b by (subst ChunkFile_loop.simps) simp
  then show ?thesis
    using m
    by (simp add: ChunkFile_def os_Open_def file_Stat_def io_Copy_sha256_def oversized_fs_def
        length_oversized_data)
qed

text \<open>
  \<^bold>\<open>C3, as amended.\<close> For every byte sequence \<open>D\<close> that fits in a byte slice and every
  \<open>K > 0\<close> for which a slice of \<open>K\<close> chunks can be allocated (\<open>88 K \<le> 2 ^ 48\<close>), both split
  functions give each chunk at index \<open>0..K-2\<close> exactly \<open>len(D) div K\<close> bytes and the last
  chunk \<open>len(D) div K + len(D) mod K\<close> bytes (the \<open>Size\<close> field and the length of the payload
  agree), and the sizes sum to \<open>len(D)\<close>.
\<close>

theorem split_chunk_sizes:
  assumes "0 < K" and "K * sizeof_FileChunk \<le> maxAlloc"
      and "files fs p = Some D" and "int (length D) \<le> maxAlloc"
  shows "\<exists>md chunks.
           ChunkFile H fs p K fileID = Ok md \<and> chunkFileInMemory H D fileID K = Ok chunks \<and>
           map Size (Chunks md) =
             replicate (nat K - 1) (int (length D) div K)
               @ [int (length D) div K + int (length D) mod K] \<and>
           map (\<lambda>c. int (length (Data c))) (Chunks md) = map Size (Chunks md) \<and>
           map Size chunks = map Size (Chunks md) \<and>
           map (\<lambda>c. int (length (Data c))) chunks = map Size (Chunks md) \<and>
           sum_list (map Size (Chunks md)) = int (length D) \<and>
           sum_list (map Size chunks) = int (length D)"
proof -
  let ?cs = "map (mk_chunk H fileID D K) [0..<nat K]"
  let ?sizes = "replicate (nat K - 1) (int (length D) div K)
                  @ [int (length D) div K + int (length D) mod K]"
  have sz: "map Size ?cs = ?sizes"
    by (simp only: map_map Size_mk_chunk map_pieces_length[OF assms(1)])
  have ln: "map (\<lambda>c. int (length (Data c))) ?cs = ?sizes"
    by (simp only: map_map len_Data_mk_chunk map_pieces_length[OF assms(1)])
  define md where "md = \<lparr>mID = fileID, OriginalName = basename p, mSize = int (length D),
               mChecksum = H D, ChunkCount = K, Chunks = ?cs, ContentType = []\<rparr>"
  have ch: "Chunks md = ?cs" by (simp add: md_def)
  have "ChunkFile H fs p K fileID = Ok md" unfolding md_def by (rule ChunkFile_eq[OF assms])
  moreover have "chunkFileInMemory H D fileID K = Ok ?cs"
    by (rule chunkFileInMemory_eq[OF assms(1,2)])
  ultimately show ?thesis
    by (intro exI[of _ md] exI[of _ ?cs]) (simp only: ch sz ln sum_sizes[OF assms(1)] simp_thms)
qed

theorem split_chunk_sizes_witness:
  "(0::int) < 3 \<and> 3 * sizeof_FileChunk \<le> maxAlloc \<and>
   files sample_fs ''in.txt'' = Some sample_data \<and> int (length sample_data) \<le> maxAlloc \<and>
   (\<exists>md chunks.
      ChunkFile sample_digest sample_fs ''in.txt'' 3 ''f'' = Ok md \<and>
      chunkFileInMemory sample_digest sample_data ''f'' 3 = Ok chunks \<and>
      map Size (Chunks md) = [2, 2, 3] \<and> map Size chunks = [2, 2, 3] \<and>
      sum_list (map Size (Chunks md)) = 7)"
proof -
  note w = sample_within_limits
  have l: "int (length sample_data) = 7" by (simp add: sample_data_def)
  have r: "replicate (nat 3 - 1) (7 div 3) @ [7 div 3 + 7 mod 3] = [2, 2, 3::int]"
    by (simp add: eval_nat_numeral)
  show ?thesis
    using split_chunk_sizes[of 3 sample_fs "''in.txt''" sample_data sample_digest "''f''",
            OF _ w(1) w(5) w(4)]
    unfolding l r using w(1,4,5) l by auto
qed

text \<open>
  \<^bold>\<open>C3, as stated,\<close> fails: for \<open>K = 2 ^ 48\<close> neither function returns chunks, because
  allocating the slice of \<open>K\<close> chunks panics; and \<open>ChunkFile\<close> panics on a file of
  \<open>2 ^ 48 + 1\<close> bytes with \<open>K = 1\<close>, when it allocates the chunk's buffer.
\<close>

theorem split_chunk_sizes_counterexample:
  "chunkFileInMemory sample_digest sample_data ''f'' (2 ^ 48) = Panic MakeSliceLenOutOfRange \<and>
   ChunkFile sample_digest sample_fs ''in.txt'' (2 ^ 48) ''f'' = Panic MakeSliceLenOutOfRange \<and>
   ChunkFile sample_digest oversized_fs ''big.bin'' 1 ''f'' = Panic MakeSliceLenOutOfRange"
  by (simp add: chunkFileInMemory_too_many ChunkFile_too_many ChunkFile_oversized
      sample_within_limits sizeof_FileChunk_def maxAlloc_def)

text \<open>
  \<^bold>\<open>C9.\<close> The two split functions agree. For every byte sequence \<open>D\<close> that fits in a byte
  slice, every chunk count \<open>K\<close> and every file id, what \<open>ChunkFile\<close> does with a file holding
  \<open>D\<close> is what \<open>chunkFileInMemory\<close> does with \<open>D\<close>: either both return the same list of
  chunk records (so ids, indices, file ids, sizes, checksums and payloads agree at every
  position) or both panic in the same way. They return chunks for every \<open>K > 0\<close> for which
  a slice of \<open>K\<close> chunks can be allocated, and panic for every other \<open>K\<close>.
\<close>

theorem split_implementations_agree:
  assumes "files fs p = Some D" and "int (length D) \<le> maxAlloc"
  shows "(case ChunkFile H fs p K fileID of
            Ok md \<Rightarrow> Ok (Chunks md) | Err e \<Rightarrow> Err e | Panic q \<Rightarrow> Panic q)
           = chunkFileInMemory H D fileID K \<and>
         (is_Ok (chunkFileInMemory H D fileID K) \<longleftrightarrow> 0 < K \<and> K * sizeof_FileChunk \<le> maxAlloc)"
proof -
  consider "K \<le> 0" | "0 < K" "K * sizeof_FileChunk \<le> maxAlloc"
    | "0 < K" "maxAlloc < K * sizeof_FileChunk"
    by linarith
  then show ?thesis
  proof cases
    case 1
    have "chunkFileInMemory H D fileID K =
            Panic (if K = 0 then DivideByZero else MakeSliceLenOutOfRange)"
      using 1 by (auto simp: chunkFileInMemory_def makeslice_len_out_of_range_def Let_def)
    moreover have "ChunkFile H fs p K fileID =
            Panic (if K = 0 then DivideByZero else MakeSliceLenOutOfRange)"
      using 1 assms(1)
      by (auto simp: ChunkFile_def os_Open_def file_Stat_def io_Copy_sha256_def
          makeslice_len_out_of_range_def Let_def)
    ultimately show ?thesis using 1 by simp
  next
    case 2
    show ?thesis
      using 2 by (simp add: ChunkFile_eq[OF 2 assms] chunkFileInMemory_eq[OF 2])
  next
    case 3
    show ?thesis
      using 3 by (simp add: ChunkFile_too_many[OF 3 assms(1)] chunkFileInMemory_too_many[OF 3])
  qed
qed

theorem split_implementations_agree_witness:
  "files sample_fs ''in.txt'' = Some sample_data \<and> int (length sample_data) \<le> maxAlloc \<and>
   (case ChunkFile sample_digest sample_fs ''in.txt'' 3 ''f'' of
      Ok md \<Rightarrow> Ok (Chunks md) | Err e \<Rightarrow> Err e | Panic q \<Rightarrow> Panic q)
     = chunkFileInMemory sample_digest sample_data ''f'' 3 \<and>
   is_Ok (chunkFileInMemory sample_digest sample_data ''f'' 3) \<and>
   \<not> is_Ok (chunkFileInMemory sample_digest sample_data ''f'' (2 ^ 62))"
proof -
  note w = sample_within_limits
  have big: "\<not> (2 ^ 62 :: int) * sizeof_FileChunk \<le> maxAlloc"
    by (simp add: sizeof_FileChunk_def maxAlloc_def)
  show ?thesis
    using split_implementations_agree[OF w(5) w(4), of sample_digest 3 "''f''"]
          split_implementations_agree[OF w(5) w(4), of sample_digest "2 ^ 62" "''f''"]
          w big
    by simp
qed

text \<open>
  \<^bold>\<open>C8, as amended.\<close> When \<open>K\<close> exceeds \<open>len(D)\<close> and a slice of \<open>K\<close> chunks can be
  allocated (\<open>88 K \<le> 2 ^ 48\<close>), both split functions succeed: the result has exactly \<open>K\<close>
  chunks, some chunk has an empty payload, and the payloads concatenate to \<open>D\<close>.
\<close>

theorem split_more_chunks_than_bytes:
  assumes "int (length D) < K" and "K * sizeof_FileChunk \<le> maxAlloc"
      and "files fs p = Some D"
  shows "\<exists>md chunks.
           ChunkFile H fs p K fileID = Ok md \<and> chunkFileInMemory H D fileID K = Ok chunks \<and>
           length (Chunks md) = nat K \<and> length chunks = nat K \<and>
           (\<exists>c \<in> set (Chunks md). Data c = []) \<and> (\<exists>c \<in> set chunks. Data c = []) \<and>
           concat (map Data (Chunks md)) = D \<and> concat (map Data chunks) = D"
proof -
  have K: "0 < K" using assms(1) by linarith
  have "K \<le> K * sizeof_FileChunk" using K by (simp add: sizeof_FileChunk_def)
  then have D: "int (length D) \<le> maxAlloc" using assms(1,2) by linarith
  have "length D div nat K = 0" using assms(1) by simp
  moreover have "K = 1 \<Longrightarrow> D = []" using assms(1) by simp
  ultimately have "piece D K 0 = []"
    by (cases "K = 1") (simp_all add: piece_def Let_def)
  then have "Data (mk_chunk H fileID D K 0) = []" by (simp add: mk_chunk_def)
  moreover have "mk_chunk H fileID D K 0 \<in> set (map (mk_chunk H fileID D K) [0..<nat K])"
    using K by simp
  ultimately have e: "\<exists>c \<in> set (map (mk_chunk H fileID D K) [0..<nat K]). Data c = []"
    by blast
  define md where "md = \<lparr>mID = fileID, OriginalName = basename p, mSize = int (length D),
               mChecksum = H D, ChunkCount = K,
               Chunks = map (mk_chunk H fileID D K) [0..<nat K], ContentType = []\<rparr>"
  have ch: "Chunks md = map (mk_chunk H fileID D K) [0..<nat K]" by (simp add: md_def)
  have cc: "concat (map Data (map (mk_chunk H fileID D K) [0..<nat K])) = D"
    by (simp only: map_map Data_mk_chunk concat_pieces[OF K])
  have "ChunkFile H fs p K fileID = Ok md"
    unfolding md_def by (rule ChunkFile_eq[OF K assms(2,3) D])
  moreover have "chunkFileInMemory H D fileID K = Ok (map (mk_chunk H fileID D K) [0..<nat K])"
    by (rule chunkFileInMemory_eq[OF K assms(2)])
  moreover have "length (map (mk_chunk H fileID D K) [0..<nat K]) = nat K" by simp
  ultimately show ?thesis
    using e cc
    by (intro exI[of _ md] exI[of _ "map (mk_chunk H fileID D K) [0..<nat K]"])
       (simp only: ch simp_thms)
qed

theorem split_more_chunks_than_bytes_witness:
  "int (length sample_data) < 9 \<and> 9 * sizeof_FileChunk \<le> maxAlloc \<and>
   files sample_fs ''in.txt'' = Some sample_data \<and>
   (\<exists>md chunks.
      ChunkFile sample_digest sample_fs ''in.txt'' 9 ''f'' = Ok md \<and>
      chunkFileInMemory sample_digest sample_data ''f'' 9 = Ok chunks \<and>
      length (Chunks md) = 9 \<and> length chunks = 9 \<and>
      (\<exists>c \<in> set (Chunks md). Data c = []) \<and> (\<exists>c \<in> set chunks. Data c = []) \<and>
      concat (map Data (Chunks md)) = sample_data \<and> concat (map Data chunks) = sample_data)"
proof -
  note w = sample_within_limits
  have l: "int (length sample_data) < 9" by (simp add: sample_data_def)
  show ?thesis
    using split_more_chunks_than_bytes[of sample_data 9 sample_fs "''in.txt''" sample_digest "''f''",
            OF l w(2) w(5)] w(2,5) l
    by simp
qed

text \<open>
  \<^bold>\<open>C8, as stated,\<close> fails: \<open>K = 2 ^ 62\<close> exceeds the seven bytes of the payload, yet
  both split functions panic when they allocate the slice of \<open>K\<close> chunks.
\<close>

theorem split_more_chunks_than_bytes_counterexample:
  "int (length sample_data) < 2 ^ 62 \<and>
   chunkFileInMemory sample_digest sample_data ''f'' (2 ^ 62) = Panic MakeSliceLenOutOfRange \<and>
   ChunkFile sample_digest sample_fs ''in.txt'' (2 ^ 62) ''f'' = Panic MakeSliceLenOutOfRange"
  by (simp add: chunkFileInMemory_too_many ChunkFile_too_many sample_within_limits
      sizeof_FileChunk_def maxAlloc_def sample_data_def)

text \<open>
  \<^bold>\<open>C2, as amended.\<close> Neither split function checks its chunk count. For
  \<open>chunkCount = 0\<close> the division panics, for \<open>chunkCount < 0\<close> allocating the chunk slice
  panics; no error is returned for the count. (\<open>ChunkFile\<close> opens the file first, and returns
  the open error when that fails.)
\<close>

theorem split_nonpositive_count_panics:
  assumes "K \<le> 0"
  shows "chunkFileInMemory H D fileID K =
           Panic (if K = 0 then DivideByZero else MakeSliceLenOutOfRange) \<and>
         ChunkFile H fs p K fileID =
           (case files fs p of
              None \<Rightarrow> Err ErrOpenFile
            | Some d \<Rightarrow> Panic (if K = 0 then DivideByZero else MakeSliceLenOutOfRange))"
  using assms
  by (auto simp: chunkFileInMemory_def ChunkFile_def os_Open_def file_Stat_def
      io_Copy_sha256_def Let_def makeslice_len_out_of_range_def split: option.splits)

theorem split_nonpositive_count_panics_witness:
  "(- 2 :: int) \<le> 0 \<and>
   chunkFileInMemory sample_digest sample_data ''f'' (- 2) = Panic MakeSliceLenOutOfRange \<and>
   ChunkFile sample_digest sample_fs ''in.txt'' (- 2) ''f'' = Panic MakeSliceLenOutOfRange \<and>
   ChunkFile sample_digest sample_fs ''absent'' (- 2) ''f'' = Err ErrOpenFile"
  using split_nonpositive_count_panics[of "- 2" sample_digest sample_data "''f''" sample_fs "''in.txt''"]
        split_nonpositive_count_panics[of "- 2" sample_digest sample_data "''f''" sample_fs "''absent''"]
  by (simp add: sample_fs_def)

text \<open>
  \<^bold>\<open>C2, as stated,\<close> fails: with \<open>chunkCount = 0\<close> both functions panic with a division
  by zero; neither returns an error.
\<close>

theorem split_zero_count_counterexample:
  "chunkFileInMemory sample_digest sample_data ''f'' 0 = Panic DivideByZero \<and>
   ChunkFile sample_digest sample_fs ''in.txt'' 0 ''f'' = Panic DivideByZero \<and>
   \<not> is_Err (chunkFileInMemory sample_digest sample_data ''f'' 0) \<and>
   \<not> is_Err (ChunkFile sample_digest sample_fs ''in.txt'' 0 ''f'')"
  by (simp add: chunkFileInMemory_def ChunkFile_def os_Open_def file_Stat_def sample_fs_def)

section \<open>Reassembly in memory and the download handler\<close>

lemma reconstruct_totalSize_nonneg: "0 \<le> t \<Longrightarrow> 0 \<le> reconstruct_totalSize t chunks"
  by (induction chunks arbitrary: t) simp_all

lemma reconstruct_append_concat:
  "reconstruct_append acc chunks = acc @ concat (map Data chunks)"
  by (induction chunks arbitrary: acc) simp_all

lemma reconstructFileInMemory_eq:
  "reconstructFileInMemory chunks = Ok (concat (map Data chunks))"
  using reconstruct_totalSize_nonneg[of 0 chunks]
  by (simp add: reconstructFileInMemory_def reconstruct_append_concat Let_def)

text \<open>
  \<^bold>\<open>C10.\<close> \<open>reconstructFileInMemory\<close> returns the concatenation of the chunks' payloads
  in list order, for every list of chunks: it never fails and reads no checksum or size
  field. The download handler answers 200 with these bytes whenever the file id is known and
  the fetches succeed, whatever the metadata's checksum says.
\<close>

theorem download_reassembly_unchecked:
  "reconstructFileInMemory chunks = Ok (concat (map Data chunks)) \<and>
   (fileMetadata s fileID = Some metadata \<and>
    collectChunks net picks (storageClients s) metadata = Ok (Inr chunks)
      \<longrightarrow> streamingDownloadFile net picks s fileID = Ok (200, Some (concat (map Data chunks))))"
  by (simp add: reconstructFileInMemory_eq streamingDownloadFile_def)

lemma run_order_two: "run_order [] [a, b] = [a, b]"
  by (simp add: run_order.simps)

text \<open>A run in which every node answers with a chunk whose index, file id, size and
  checksum are wrong, and the metadata's checksum is not the digest of the result.\<close>

theorem download_reassembly_unchecked_witness:
  "fileMetadata unchecked_server ''f'' \<noteq> None \<and>
   mChecksum (the (fileMetadata unchecked_server ''f'')) \<noteq> sample_digest [1, 2, 1, 2] \<and>
   streamingDownloadFile unchecked_net [] unchecked_server ''f'' = Ok (200, Some [1, 2, 1, 2])"
proof -
  let ?c = "\<lambda>i. \<lparr>ID = i, Index = 7, FileID = ''other'', Size = 99,
                   Checksum = ''bogus'', Data = [1, 2 :: byte]\<rparr>"
  let ?md = "the (fileMetadata unchecked_server ''f'')"
  have m: "fileMetadata unchecked_server ''f'' = Some ?md" by (simp add: unchecked_server_def)
  have c: "collectChunks unchecked_net [] (storageClients unchecked_server) ?md
             = Ok (Inr [?c ''f_chunk_0'', ?c ''f_chunk_1''])"
    by (simp add: collectChunks_def unchecked_server_def unchecked_net_def enumerate_eq_zip
        run_order_two fetchTask_def StorageClient_GetChunk_def upt_rec zeroChunk_def
        eval_nat_numeral)
  have d: "sample_digest [1, 2, 1, 2] = ''4''"
    by (simp add: sample_digest_def utoa.simps digit_char_def)
  show ?thesis
    using download_reassembly_unchecked[of "[?c ''f_chunk_0'', ?c ''f_chunk_1'']" unchecked_server
            "''f''" ?md unchecked_net "[]"] m c d
    by (simp add: unchecked_server_def)
qed

section \<open>Metadata validation and the node's delete handler\<close>

lemma wrap64_add_left: "wrap64 (wrap64 a + b) = wrap64 (a + b)"
proof -
  have "(((a + 2 ^ 63) mod 2 ^ 64 - 2 ^ 63) + b + 2 ^ 63) mod (2 ^ 64 :: int)
        = ((a + 2 ^ 63) mod 2 ^ 64 + b) mod 2 ^ 64"
    by (simp add: algebra_simps)
  also have "\<dots> = (a + 2 ^ 63 + b) mod 2 ^ 64" by (rule mod_add_left_eq)
  also have "\<dots> = (a + b + 2 ^ 63) mod 2 ^ 64" by (simp add: algebra_simps)
  finally show ?thesis unfolding wrap64_def by simp
qed

lemma wrap64_id: "- (2 ^ 63) \<le> x \<Longrightarrow> x < 2 ^ 63 \<Longrightarrow> wrap64 x = x"
  by (simp add: wrap64_def)

lemma ValidateFileMetadata_loop_isl:
  "isl (ValidateFileMetadata_loop fid i t cs) \<longleftrightarrow>
     (\<exists>k<length cs. Index (cs ! k) \<noteq> int (i + k)) \<or> (\<exists>k<length cs. FileID (cs ! k) \<noteq> fid)"
proof (induction cs arbitrary: i t)
  case Nil
  then show ?case by simp
next
  case (Cons c cs)
  have idx: "(\<exists>k<length (c # cs). Index ((c # cs) ! k) \<noteq> int (i + k)) \<longleftrightarrow>
        Index c \<noteq> int i \<or> (\<exists>k<length cs. Index (cs ! k) \<noteq> int (i + 1 + k))"
    by (auto simp: less_Suc_eq_0_disj)
  have fidx: "(\<exists>k<length (c # cs). FileID ((c # cs) ! k) \<noteq> fid) \<longleftrightarrow>
        FileID c \<noteq> fid \<or> (\<exists>k<length cs. FileID (cs ! k) \<noteq> fid)"
    by (auto simp: less_Suc_eq_0_disj)
  show ?case unfolding idx fidx using Cons.IH[of "i + 1"] by auto
qed

lemma ValidateFileMetadata_loop_total:
  "ValidateFileMetadata_loop fid i t cs = Inr r \<Longrightarrow> wrap64 t = t \<Longrightarrow>
     r = wrap64 (t + sum_list (map Size cs))"
proof (induction cs arbitrary: i t)
  case Nil
  then show ?case by simp
next
  case (Cons c cs)
  from Cons.prems(1) have
    rest: "ValidateFileMetadata_loop fid (i + 1) (wrap64 (t + Size c)) cs = Inr r"
    by (simp split: if_splits)
  have "wrap64 (wrap64 (t + Size c)) = wrap64 (t + Size c)"
    using wrap64_add_left[of "t + Size c" 0] by simp
  from Cons.IH[OF rest this] show ?case by (simp add: wrap64_add_left add.assoc)
qed

lemma ValidateFileMetadata_loop_errors:
  "ValidateFileMetadata_loop fid i t cs = Inl e \<Longrightarrow>
     (\<exists>a b. e = ErrWrongIndex a b) \<or> (\<exists>a. e = ErrWrongFileID a)"
  by (induction cs arbitrary: i t) (auto split: if_splits)

lemma ValidateFileMetadata_loop_fields:
  "ValidateFileMetadata_loop fid i t (map (\<lambda>c. c\<lparr>Checksum := f c, Data := g c\<rparr>) cs)
     = ValidateFileMetadata_loop fid i t cs"
  by (induction cs arbitrary: i t) simp_all

text \<open>
  \<^bold>\<open>C7, as amended.\<close> \<open>ValidateFileMetadata\<close> fails if and only if the number of chunks
  differs from \<open>ChunkCount\<close>, or some chunk's index differs from its position, or some
  chunk's file id differs from the metadata's id, or the chunk sizes, added up in
  \<^verbatim>\<open>int64\<close> arithmetic (wrapping around), differ from the metadata's size. Every failure
  is one of these four errors. When the sizes are non-negative and their sum is below
  \<open>2 ^ 63\<close> the wrapped sum is the sum. The result depends on no checksum and no payload.
\<close>

theorem ValidateFileMetadata_iff:
  "(ValidateFileMetadata md \<noteq> None \<longleftrightarrow>
      int (length (Chunks md)) \<noteq> ChunkCount md \<or>
      (\<exists>k<length (Chunks md). Index (Chunks md ! k) \<noteq> int k) \<or>
      (\<exists>k<length (Chunks md). FileID (Chunks md ! k) \<noteq> mID md) \<or>
      wrap64 (sum_list (map Size (Chunks md))) \<noteq> mSize md) \<and>
   (\<forall>e. ValidateFileMetadata md = Some e \<longrightarrow>
      e = ErrChunkCountMismatch \<or> (\<exists>a b. e = ErrWrongIndex a b) \<or>
      (\<exists>a. e = ErrWrongFileID a) \<or> e = ErrTotalSize) \<and>
   ((\<forall>c \<in> set (Chunks md). 0 \<le> Size c) \<and> sum_list (map Size (Chunks md)) < 2 ^ 63 \<longrightarrow>
      wrap64 (sum_list (map Size (Chunks md))) = sum_list (map Size (Chunks md))) \<and>
   ValidateFileMetadata
     (md\<lparr>mChecksum := x, Chunks := map (\<lambda>c. c\<lparr>Checksum := f c, Data := g c\<rparr>) (Chunks md)\<rparr>)
     = ValidateFileMetadata md"
proof (intro conjI allI impI)
  let ?L = "ValidateFileMetadata_loop (mID md) 0 0 (Chunks md)"
  have w0: "wrap64 0 = 0" by (simp add: wrap64_def)
  show "ValidateFileMetadata md \<noteq> None \<longleftrightarrow>
      int (length (Chunks md)) \<noteq> ChunkCount md \<or>
      (\<exists>k<length (Chunks md). Index (Chunks md ! k) \<noteq> int k) \<or>
      (\<exists>k<length (Chunks md). FileID (Chunks md ! k) \<noteq> mID md) \<or>
      wrap64 (sum_list (map Size (Chunks md))) \<noteq> mSize md"
  proof (cases ?L)
    case (Inl e)
    then have "isl ?L" by simp
    then have "(\<exists>k<length (Chunks md). Index (Chunks md ! k) \<noteq> int k) \<or>
      (\<exists>k<length (Chunks md). FileID (Chunks md ! k) \<noteq> mID md)"
      using ValidateFileMetadata_loop_isl[of "mID md" 0 0 "Chunks md"] by simp
    then show ?thesis using Inl by (auto simp: ValidateFileMetadata_def)
  next
    case (Inr r)
    then have "\<not> isl ?L" by simp
    then have no: "\<not> ((\<exists>k<length (Chunks md). Index (Chunks md ! k) \<noteq> int k) \<or>
      (\<exists>k<length (Chunks md). FileID (Chunks md ! k) \<noteq> mID md))"
      using ValidateFileMetadata_loop_isl[of "mID md" 0 0 "Chunks md"] by simp
    have "r = wrap64 (sum_list (map Size (Chunks md)))"
      using ValidateFileMetadata_loop_total[OF Inr w0] by simp
    then show ?thesis using Inr no by (auto simp: ValidateFileMetadata_def)
  qed
next
  fix e assume "ValidateFileMetadata md = Some e"
  then show "e = ErrChunkCountMismatch \<or> (\<exists>a b. e = ErrWrongIndex a b) \<or>
      (\<exists>a. e = ErrWrongFileID a) \<or> e = ErrTotalSize"
    using ValidateFileMetadata_loop_errors[of "mID md" 0 0 "Chunks md"]
    by (auto simp: ValidateFileMetadata_def split: if_splits sum.splits)
next
  assume a: "(\<forall>c \<in> set (Chunks md). 0 \<le> Size c) \<and> sum_list (map Size (Chunks md)) < 2 ^ 63"
  then have "0 \<le> sum_list (map Size (Chunks md))" by (intro sum_list_nonneg) auto
  then show "wrap64 (sum_list (map Size (Chunks md))) = sum_list (map Size (Chunks md))"
    using a by (intro wrap64_id) simp_all
next
  show "ValidateFileMetadata
     (md\<lparr>mChecksum := x, Chunks := map (\<lambda>c. c\<lparr>Checksum := f c, Data := g c\<rparr>) (Chunks md)\<rparr>)
     = ValidateFileMetadata md"
    by (simp add: ValidateFileMetadata_def ValidateFileMetadata_loop_fields split: sum.splits)
qed

theorem ValidateFileMetadata_iff_witness:
  "map Size (Chunks good_metadata) = [2, 3] \<and>
   sum_list (map Size (Chunks good_metadata)) < 2 ^ 63 \<and>
   wrap64 (sum_list (map Size (Chunks good_metadata))) = 5 \<and>
   ValidateFileMetadata good_metadata = None \<and>
   ValidateFileMetadata (good_metadata\<lparr>ChunkCount := 3\<rparr>) = Some ErrChunkCountMismatch"
proof -
  have a: "\<forall>c \<in> set (Chunks good_metadata). 0 \<le> Size c" by (simp add: good_metadata_def)
  have b: "sum_list (map Size (Chunks good_metadata)) < 2 ^ 63" by (simp add: good_metadata_def)
  have s: "sum_list (map Size (Chunks good_metadata)) = 5" by (simp add: good_metadata_def)
  have v: "ValidateFileMetadata good_metadata = None"
    by (simp add: ValidateFileMetadata_def good_metadata_def wrap64_def)
  have e: "ValidateFileMetadata (good_metadata\<lparr>ChunkCount := 3\<rparr>) = Some ErrChunkCountMismatch"
    by (simp add: ValidateFileMetadata_def good_metadata_def)
  from ValidateFileMetadata_iff[of good_metadata] a b
  have "wrap64 (sum_list (map Size (Chunks good_metadata))) = sum_list (map Size (Chunks good_metadata))"
    by blast
  moreover have "map Size (Chunks good_metadata) = [2, 3]" by (simp add: good_metadata_def)
  ultimately show ?thesis using b s v e by simp
qed

text \<open>
  \<^bold>\<open>C7, as stated,\<close> fails: the sizes \<open>2 ^ 63 - 1\<close>, \<open>2 ^ 63 - 1\<close> and \<open>2\<close> do not sum to
  the metadata's size 0, yet the metadata validates, because the running total wraps.
\<close>

theorem ValidateFileMetadata_overflow_counterexample:
  "ValidateFileMetadata overflow_metadata = None \<and>
   sum_list (map Size (Chunks overflow_metadata)) \<noteq> mSize overflow_metadata"
  by (simp add: ValidateFileMetadata_def overflow_metadata_def wrap64_def)

text \<open>
  \<^bold>\<open>C6.\<close> For a chunk id that the store does not hold, the delete handler answers 500,
  not 404 (the fetch handler answers 404 for the same id); it answers 200 for a chunk that
  exists, and removes it.
\<close>

theorem deleteChunk_missing_answers_500:
  "deleteChunk Map.empty ''f_chunk_0'' = (500, Map.empty) \<and>
   getChunk Map.empty ''f_chunk_0'' = (404, None) \<and>
   deleteChunk [''f_chunk_0'' \<mapsto> zeroChunk] ''f_chunk_0'' = (200, Map.empty)"
  by (simp add: deleteChunk_def getChunk_def MemoryStorage_DeleteChunk_def
      MemoryStorage_GetChunk_def)

section \<open>Reassembly on disk\<close>

subsection \<open>A list sorted by index is left as it is\<close>



lemma length_sortByIndex_outer [simp]:
  "length (sortByIndex_outer i chunks) = length chunks"
  by (induction i chunks rule: sortByIndex_outer.induct)
     (subst sortByIndex_outer.simps, simp)

subsection \<open>The index check\<close>

lemma checkIndices_None:
  "checkIndices i chunks = None \<longleftrightarrow> map Index chunks = map int [i..<i + length chunks]"
proof (induction chunks arbitrary: i)
  case Nil
  then show ?case by simp
next
  case (Cons c cs)
  have "[i..<i + length (c # cs)] = i # [i + 1..<i + 1 + length cs]"
    using upt_conv_Cons[of i "i + Suc (length cs)"] by simp
  then show ?case using Cons.IH[of "i + 1"] by auto
qed

lemma checkIndices_Some:
  "checkIndices i chunks = Some m \<Longrightarrow>
     i \<le> m \<and> m - i < length chunks \<and> Index (chunks ! (m - i)) \<noteq> int m \<and>
     (\<forall>k<m - i. Index (chunks ! k) = int (i + k))"
proof (induction chunks arbitrary: i)
  case Nil
  then show ?case by simp
next
  case (Cons c cs)
  show ?case
  proof (cases "Index c \<noteq> int i")
    case True
    with Cons.prems have "m = i" by simp
    then show ?thesis using True by simp
  next
    case False
    with Cons.prems have "checkIndices (i + 1) cs = Some m" by simp
    from Cons.IH[OF this] have
      a: "i + 1 \<le> m" and b: "m - (i + 1) < length cs"
      and c: "Index (cs ! (m - (i + 1))) \<noteq> int m"
      and d: "\<forall>k<m - (i + 1). Index (cs ! k) = int (i + 1 + k)" by auto
    have e: "m - i = Suc (m - (i + 1))" using a by simp
    have "\<forall>k<m - i. Index ((c # cs) ! k) = int (i + k)"
    proof (intro allI impI)
      fix k assume "k < m - i"
      then show "Index ((c # cs) ! k) = int (i + k)"
        using False d e by (cases k) auto
    qed
    then show ?thesis using a b c e by simp
  qed
qed

subsection \<open>Writing\<close>

lemma writeChunks_ok:
  assumes "length (concat (map Data chunks)) \<le> space fs" "files fs p = Some old"
  shows "writeChunks fs p chunks =
           (None, fs\<lparr>files := (files fs)(p \<mapsto> old @ concat (map Data chunks)),
                     space := space fs - length (concat (map Data chunks))\<rparr>)"
  using assms
proof (induction chunks arbitrary: fs old)
  case Nil
  then have "(files fs)(p \<mapsto> old) = files fs" by (simp add: fun_upd_idem)
  then show ?case by simp
next
  case (Cons c cs)
  let ?fs' = "fs\<lparr>files := (files fs)(p \<mapsto> old @ Data c), space := space fs - length (Data c)\<rparr>"
  have w: "file_Write fs p (Data c) = (True, ?fs')"
    using Cons.prems by (simp add: file_Write_def)
  have ih: "writeChunks ?fs' p cs =
          (None, ?fs'\<lparr>files := (files ?fs')(p \<mapsto> (old @ Data c) @ concat (map Data cs)),
                      space := space ?fs' - length (concat (map Data cs))\<rparr>)"
    using Cons.prems by (intro Cons.IH) simp_all
  have eq: "?fs'\<lparr>files := (files ?fs')(p \<mapsto> (old @ Data c) @ concat (map Data cs)),
                 space := space ?fs' - length (concat (map Data cs))\<rparr>
            = fs\<lparr>files := (files fs)(p \<mapsto> old @ concat (map Data (c # cs))),
                  space := space fs - length (concat (map Data (c # cs)))\<rparr>"
    by (cases fs) simp
  show ?case
    by (simp only: writeChunks.simps w prod.case bool.case ih eq)
qed

lemma ReconstructFile_ok:
  assumes "chunks \<noteq> []" "map Index (sortByIndex_outer 0 chunks) = map int [0..<length chunks]"
      and "outputPath \<notin> set (denied fs)"
      and "length (concat (map Data (sortByIndex_outer 0 chunks))) \<le> space fs"
  shows "ReconstructFile fs chunks outputPath =
           (None, sortByIndex_outer 0 chunks,
            fs\<lparr>files := (files fs)(outputPath \<mapsto> concat (map Data (sortByIndex_outer 0 chunks))),
               space := space fs - length (concat (map Data (sortByIndex_outer 0 chunks)))\<rparr>)"
proof -
  let ?s = "sortByIndex_outer 0 chunks"
  let ?fs1 = "fs\<lparr>files := (files fs)(outputPath \<mapsto> [])\<rparr>"
  have len: "length ?s = length chunks" by simp
  have ck: "checkIndices 0 ?s = None"
    using assms(2) len by (simp add: checkIndices_None)
  have cr: "os_Create fs outputPath = Some ?fs1" using assms(3) by (simp add: os_Create_def)
  have "writeChunks ?fs1 outputPath ?s =
          (None, ?fs1\<lparr>files := (files ?fs1)(outputPath \<mapsto> [] @ concat (map Data ?s)),
                      space := space ?fs1 - length (concat (map Data ?s))\<rparr>)"
    using assms(4) by (intro writeChunks_ok) simp_all
  then show ?thesis using assms(1) ck cr by (simp add: ReconstructFile_def Let_def)
qed







subsection \<open>The exchange sort sorts\<close>

lemma swap_props:
  assumes "i < j" "j < length xs"
  shows "mset (xs[i := xs ! j, j := xs ! i]) = mset xs"
    and "take i (xs[i := xs ! j, j := xs ! i]) = take i xs"
    and "mset (drop i (xs[i := xs ! j, j := xs ! i])) = mset (drop i xs)"
proof -
  show "mset (xs[i := xs ! j, j := xs ! i]) = mset xs"
    using assms mset_swap[of j xs i] by simp
  show "take i (xs[i := xs ! j, j := xs ! i]) = take i xs"
    using assms by simp
  let ?d = "drop i xs"
  have d: "drop i (xs[i := xs ! j, j := xs ! i]) = ?d[0 := ?d ! (j - i), j - i := ?d ! 0]"
    using assms by (simp add: drop_update_swap)
  have "mset (?d[0 := ?d ! (j - i), j - i := ?d ! 0]) = mset ?d"
    using assms mset_swap[of "j - i" ?d 0] by simp
  then show "mset (drop i (xs[i := xs ! j, j := xs ! i])) = mset (drop i xs)"
    unfolding d .
qed

lemma sortByIndex_inner_inv:
  assumes "i < j" and "\<forall>k. i < k \<and> k < j \<and> k < length xs \<longrightarrow> Index (xs ! i) \<le> Index (xs ! k)"
  shows "mset (sortByIndex_inner i j xs) = mset xs \<and>
         take i (sortByIndex_inner i j xs) = take i xs \<and>
         mset (drop i (sortByIndex_inner i j xs)) = mset (drop i xs) \<and>
         (\<forall>k. i < k \<and> k < length xs \<longrightarrow>
               Index (sortByIndex_inner i j xs ! i) \<le> Index (sortByIndex_inner i j xs ! k))"
  using assms
proof (induction i j xs rule: sortByIndex_inner.induct)
  case (1 i j xs)
  show ?case
  proof (cases "j < length xs")
    case False
    then have "sortByIndex_inner i j xs = xs" by (subst sortByIndex_inner.simps) simp
    then show ?thesis using 1(3) False by auto
  next
    case True
    let ?xs' = "if Index (xs ! i) > Index (xs ! j) then xs[i := xs ! j, j := xs ! i] else xs"
    have step: "sortByIndex_inner i j xs = sortByIndex_inner i (j + 1) ?xs'"
      using True by (subst sortByIndex_inner.simps) simp
    have len: "length ?xs' = length xs" by simp
    have m: "mset ?xs' = mset xs" "take i ?xs' = take i xs" "mset (drop i ?xs') = mset (drop i xs)"
      using swap_props[OF 1(2) True] by simp_all
    have pre: "\<forall>k. i < k \<and> k < j + 1 \<and> k < length ?xs' \<longrightarrow> Index (?xs' ! i) \<le> Index (?xs' ! k)"
    proof (intro allI impI)
      fix k assume k: "i < k \<and> k < j + 1 \<and> k < length ?xs'"
      show "Index (?xs' ! i) \<le> Index (?xs' ! k)"
      proof (cases "Index (xs ! i) > Index (xs ! j)")
        case sw: True
        have i': "?xs' ! i = xs ! j" using sw 1(2) True by simp
        show ?thesis
        proof (cases "k = j")
          case True
          then have "?xs' ! k = xs ! i" using sw \<open>j < length xs\<close> by simp
          then show ?thesis using i' sw by simp
        next
          case False
          then have kj: "k < j" using k by simp
          then have "?xs' ! k = xs ! k" using sw k by simp
          moreover have "Index (xs ! i) \<le> Index (xs ! k)" using 1(3) k kj True by simp
          ultimately show ?thesis using i' sw by simp
        qed
      next
        case ns: False
        then have same: "?xs' = xs" by simp
        show ?thesis
        proof (cases "k = j")
          case True
          then show ?thesis using ns same by simp
        next
          case False
          then have "k < j" using k by simp
          then show ?thesis using 1(3) k same by simp
        qed
      qed
    qed
    have IH: "mset (sortByIndex_inner i (j + 1) ?xs') = mset ?xs' \<and>
         take i (sortByIndex_inner i (j + 1) ?xs') = take i ?xs' \<and>
         mset (drop i (sortByIndex_inner i (j + 1) ?xs')) = mset (drop i ?xs') \<and>
         (\<forall>k. i < k \<and> k < length ?xs' \<longrightarrow>
               Index (sortByIndex_inner i (j + 1) ?xs' ! i) \<le> Index (sortByIndex_inner i (j + 1) ?xs' ! k))"
      using 1(1)[OF True _ pre] 1(2) by simp
    show ?thesis unfolding step using IH m len by simp
  qed
qed

lemma sortByIndex_outer_inv:
  assumes "sorted (map Index (take i xs))"
      and "\<forall>a b. a < i \<and> i \<le> b \<and> b < length xs \<longrightarrow> Index (xs ! a) \<le> Index (xs ! b)"
  shows "sorted (map Index (sortByIndex_outer i xs)) \<and> mset (sortByIndex_outer i xs) = mset xs"
  using assms
proof (induction i xs rule: sortByIndex_outer.induct)
  case (1 i xs)
  show ?case
  proof (cases "i < length xs")
    case False
    then have "sortByIndex_outer i xs = xs" by (subst sortByIndex_outer.simps) simp
    then show ?thesis using 1(2) False by simp
  next
    case True
    let ?ys = "sortByIndex_inner i (i + 1) xs"
    have step: "sortByIndex_outer i xs = sortByIndex_outer (i + 1) ?ys"
      using True by (subst sortByIndex_outer.simps) simp
    have inner: "mset ?ys = mset xs" "take i ?ys = take i xs"
        "mset (drop i ?ys) = mset (drop i xs)"
        "\<forall>k. i < k \<and> k < length xs \<longrightarrow> Index (?ys ! i) \<le> Index (?ys ! k)"
      using sortByIndex_inner_inv[of i "i + 1" xs] by simp_all
    have len: "length ?ys = length xs" by simp
    have tail: "\<exists>b. i \<le> b \<and> b < length xs \<and> ?ys ! k = xs ! b" if "i \<le> k" and "k < length xs" for k
    proof -
      have "?ys ! k = drop i ?ys ! (k - i)" using that len by simp
      moreover have "k - i < length (drop i ?ys)" using that len by simp
      ultimately have "?ys ! k \<in> set (drop i ?ys)" by (metis nth_mem)
      then have "?ys ! k \<in> set (drop i xs)" using inner(3) by (metis set_mset_mset)
      then obtain n where "n < length (drop i xs)" "drop i xs ! n = ?ys ! k"
        by (metis in_set_conv_nth)
      then have "i \<le> i + n \<and> i + n < length xs \<and> ?ys ! k = xs ! (i + n)" by simp
      then show ?thesis by blast
    qed
    have head: "?ys ! a = xs ! a" if "a < i" for a
    proof -
      have "?ys ! a = take i ?ys ! a" using that by simp
      also have "\<dots> = take i xs ! a" using inner(2) by simp
      also have "\<dots> = xs ! a" using that by simp
      finally show ?thesis .
    qed
    have below: "Index (?ys ! a) \<le> Index (?ys ! b)" if h1: "a < i" and h2: "i \<le> b" and h3: "b < length xs" for a b
    proof -
      obtain b' where "i \<le> b'" "b' < length xs" "?ys ! b = xs ! b'"
        using tail[OF h2 h3] by blast
      then show ?thesis using head[OF h1] 1(3) h1 by simp
    qed
    have tk: "take (i + 1) ?ys = take i xs @ [?ys ! i]"
      using True len inner(2) by (simp add: take_Suc_conv_app_nth)
    have "\<forall>x \<in> set (map Index (take i xs)). x \<le> Index (?ys ! i)"
    proof
      fix x assume "x \<in> set (map Index (take i xs))"
      then obtain a where a: "a < length (take i xs)" "x = Index (take i xs ! a)"
        by (metis in_set_conv_nth length_map nth_map)
      then have "a < i" by simp
      then show "x \<le> Index (?ys ! i)" using below[of a i] True a head[of a] by simp
    qed
    then have s1: "sorted (map Index (take (i + 1) ?ys))"
      unfolding tk using 1(2) by (simp add: sorted_append)
    have s2: "\<forall>a b. a < i + 1 \<and> i + 1 \<le> b \<and> b < length ?ys \<longrightarrow> Index (?ys ! a) \<le> Index (?ys ! b)"
    proof (intro allI impI)
      fix a b assume ab: "a < i + 1 \<and> i + 1 \<le> b \<and> b < length ?ys"
      show "Index (?ys ! a) \<le> Index (?ys ! b)"
      proof (cases "a = i")
        case True
        then show ?thesis using inner(4) ab by simp
      next
        case False
        then show ?thesis using below[of a b] ab by simp
      qed
    qed
    have "sorted (map Index (sortByIndex_outer (i + 1) ?ys)) \<and>
          mset (sortByIndex_outer (i + 1) ?ys) = mset ?ys"
      using 1(1)[OF True s1 s2] .
    then show ?thesis unfolding step using inner(1) by simp
  qed
qed

lemma sortByIndex_sorts:
  "sorted (map Index (sortByIndex_outer 0 chunks)) \<and> mset (sortByIndex_outer 0 chunks) = mset chunks"
  by (rule sortByIndex_outer_inv) simp_all

subsection \<open>The outcome of ReconstructFile\<close>

lemma ReconstructFile_missing:
  assumes "chunks \<noteq> []" "checkIndices 0 (sortByIndex_outer 0 chunks) = Some m"
  shows "ReconstructFile fs chunks outputPath =
           (Some (ErrMissingChunk (int m)), sortByIndex_outer 0 chunks, fs)"
  using assms by (simp add: ReconstructFile_def Let_def)

lemma ReconstructFile_sorted_slice:
  "chunks \<noteq> [] \<Longrightarrow> fst (snd (ReconstructFile fs chunks outputPath)) = sortByIndex_outer 0 chunks"
  by (simp add: ReconstructFile_def Let_def split: option.splits prod.splits)

lemma first_mismatch_is_least_absent:
  assumes srt: "sorted (map Index s)" and dst: "distinct (map Index s)"
      and nonneg: "\<forall>c \<in> set s. 0 \<le> Index c"
      and m: "m < length s" "Index (s ! m) \<noteq> int m" "\<forall>k<m. Index (s ! k) = int k"
  shows "int m \<notin> Index ` set s \<and> (\<forall>k<m. int k \<in> Index ` set s)"
proof
  have strict: "\<And>a b. a < b \<Longrightarrow> b < length s \<Longrightarrow> Index (s ! a) < Index (s ! b)"
  proof -
    fix a b assume ab: "a < b" "b < length s"
    have "sorted_wrt (<) (map Index s)" using srt dst by (simp add: strict_sorted_iff)
    then have "map Index s ! a < map Index s ! b"
      using ab by (simp add: sorted_wrt_iff_nth_less)
    then show "Index (s ! a) < Index (s ! b)" using ab by simp
  qed
  have above: "int m < Index (s ! m)"
  proof (cases m)
    case 0
    have "0 \<le> Index (s ! m)" using nonneg m(1) by simp
    then show ?thesis using m(2) 0 by simp
  next
    case (Suc n)
    have "Index (s ! n) < Index (s ! m)" using strict[of n m] Suc m(1) by simp
    moreover have "Index (s ! n) = int n" using m(3) Suc by simp
    ultimately show ?thesis using m(2) Suc by simp
  qed
  show "int m \<notin> Index ` set s"
  proof
    assume "int m \<in> Index ` set s"
    then obtain j where j: "j < length s" "Index (s ! j) = int m"
      by (metis (no_types, lifting) image_iff in_set_conv_nth)
    consider "j < m" | "j = m" | "m < j" by linarith
    then show False
    proof cases
      case 1
      then show False using m(3) j(2) by simp
    next
      case 2
      then show False using above j(2) by simp
    next
      case 3
      then have "Index (s ! m) < Index (s ! j)" using strict j(1) by simp
      then show False using above j(2) by simp
    qed
  qed
  show "\<forall>k<m. int k \<in> Index ` set s"
  proof (intro allI impI)
    fix k assume "k < m"
    then have "Index (s ! k) = int k" "s ! k \<in> set s" using m(1,3) by simp_all
    then show "int k \<in> Index ` set s" by (metis imageI)
  qed
qed

text \<open>
  \<^bold>\<open>C4, as amended.\<close> For every non-empty list of chunks, \<open>ReconstructFile\<close> sorts the
  chunks by index (the caller's slice ends up sorted, with the same chunks). If after
  sorting the chunk at every position \<open>i\<close> has index \<open>i\<close>, it writes the payloads in index
  order and returns no error, provided the output file can be created and there is space
  for the payloads. Otherwise it returns the missing-chunk error naming the first position
  whose chunk does not carry that position as its index, and touches no file; when the
  indices are distinct and non-negative, the position named is the first index that no
  chunk has.
\<close>

theorem ReconstructFile_sorts_and_checks:
  assumes "chunks \<noteq> []"
  shows "\<exists>s. s = sortByIndex_outer 0 chunks \<and> mset s = mset chunks \<and> sorted (map Index s) \<and>
           fst (snd (ReconstructFile fs chunks outputPath)) = s \<and>
           (map Index s = map int [0..<length s] \<longrightarrow>
              outputPath \<notin> set (denied fs) \<and> length (concat (map Data s)) \<le> space fs \<longrightarrow>
              (\<exists>fs'. ReconstructFile fs chunks outputPath = (None, s, fs') \<and>
                     files fs' outputPath = Some (concat (map Data s)))) \<and>
           (map Index s \<noteq> map int [0..<length s] \<longrightarrow>
              (\<exists>m<length s.
                 ReconstructFile fs chunks outputPath = (Some (ErrMissingChunk (int m)), s, fs) \<and>
                 Index (s ! m) \<noteq> int m \<and> (\<forall>k<m. Index (s ! k) = int k) \<and>
                 (distinct (map Index chunks) \<and> (\<forall>c \<in> set chunks. 0 \<le> Index c) \<longrightarrow>
                    int m \<notin> Index ` set chunks \<and> (\<forall>k<m. int k \<in> Index ` set chunks))))"
proof -
  let ?s = "sortByIndex_outer 0 chunks"
  have srt: "sorted (map Index ?s)" and ms: "mset ?s = mset chunks"
    using sortByIndex_sorts[of chunks] by simp_all
  have len: "length ?s = length chunks" by simp
  have st: "set ?s = set chunks" using ms by (metis set_mset_mset)
  have ok: "\<exists>fs'. ReconstructFile fs chunks outputPath = (None, ?s, fs') \<and>
                     files fs' outputPath = Some (concat (map Data ?s))"
    if "map Index ?s = map int [0..<length ?s]"
      and "outputPath \<notin> set (denied fs) \<and> length (concat (map Data ?s)) \<le> space fs"
  proof -
    have "ReconstructFile fs chunks outputPath =
           (None, ?s,
            fs\<lparr>files := (files fs)(outputPath \<mapsto> concat (map Data ?s)),
               space := space fs - length (concat (map Data ?s))\<rparr>)"
      using that assms by (intro ReconstructFile_ok) simp_all
    then show ?thesis by simp
  qed
  have bad: "\<exists>m<length ?s.
                 ReconstructFile fs chunks outputPath = (Some (ErrMissingChunk (int m)), ?s, fs) \<and>
                 Index (?s ! m) \<noteq> int m \<and> (\<forall>k<m. Index (?s ! k) = int k) \<and>
                 (distinct (map Index chunks) \<and> (\<forall>c \<in> set chunks. 0 \<le> Index c) \<longrightarrow>
                    int m \<notin> Index ` set chunks \<and> (\<forall>k<m. int k \<in> Index ` set chunks))"
    if ne: "map Index ?s \<noteq> map int [0..<length ?s]"
  proof -
    have "checkIndices 0 ?s \<noteq> None" using ne by (simp add: checkIndices_None)
    then obtain m where ck: "checkIndices 0 ?s = Some m" by blast
    from checkIndices_Some[OF ck]
    have m: "m < length ?s" "Index (?s ! m) \<noteq> int m" "\<forall>k<m. Index (?s ! k) = int k"
      by simp_all
    have r: "ReconstructFile fs chunks outputPath = (Some (ErrMissingChunk (int m)), ?s, fs)"
      by (rule ReconstructFile_missing[OF assms ck])
    have la: "int m \<notin> Index ` set chunks \<and> (\<forall>k<m. int k \<in> Index ` set chunks)"
      if d: "distinct (map Index chunks) \<and> (\<forall>c \<in> set chunks. 0 \<le> Index c)"
    proof -
      have "mset (map Index ?s) = mset (map Index chunks)" using ms by simp
      then have "distinct (map Index ?s)" using d by (metis mset_eq_imp_distinct_iff)
      moreover have "\<forall>c \<in> set ?s. 0 \<le> Index c" using d st by simp
      ultimately show ?thesis
        using first_mismatch_is_least_absent[OF srt _ _ m] st by simp
    qed
    show ?thesis using m r la by blast
  qed
  show ?thesis
    using ms srt ReconstructFile_sorted_slice[OF assms, of fs outputPath] ok bad by blast
qed

lemma sort_shuffled: "sortByIndex_outer 0 shuffled_chunks = [chunk_at 0 [1, 2], chunk_at 1 [3, 4]]"
  by (simp add: shuffled_chunks_def chunk_at_def sortByIndex_outer.simps sortByIndex_inner.simps)

lemma sort_gapped: "sortByIndex_outer 0 gapped_chunks = [chunk_at 0 [1, 2], chunk_at 2 [5]]"
  by (simp add: gapped_chunks_def chunk_at_def sortByIndex_outer.simps sortByIndex_inner.simps)

theorem ReconstructFile_sorts_and_checks_witness:
  "shuffled_chunks \<noteq> [] \<and> gapped_chunks \<noteq> [] \<and>
   ''out.bin'' \<notin> set (denied sample_fs) \<and>
   (\<exists>fs'. ReconstructFile sample_fs shuffled_chunks ''out.bin''
             = (None, [chunk_at 0 [1, 2], chunk_at 1 [3, 4]], fs') \<and>
          files fs' ''out.bin'' = Some [1, 2, 3, 4]) \<and>
   ReconstructFile sample_fs gapped_chunks ''out.bin''
     = (Some (ErrMissingChunk 1), [chunk_at 0 [1, 2], chunk_at 2 [5]], sample_fs) \<and>
   1 \<notin> Index ` set gapped_chunks"
proof -
  have ne: "shuffled_chunks \<noteq> []" "gapped_chunks \<noteq> []"
    by (simp_all add: shuffled_chunks_def gapped_chunks_def)
  have d: "''out.bin'' \<notin> set (denied sample_fs)" by (simp add: sample_fs_def)
  have i1: "map Index [chunk_at 0 [1, 2], chunk_at 1 [3, 4]] = map int [0..<length [chunk_at 0 [1, 2], chunk_at 1 [3, 4]]]"
    by (simp add: chunk_at_def upt_rec)
  have sp: "length (concat (map Data [chunk_at 0 [1, 2], chunk_at 1 [3, 4]])) \<le> space sample_fs"
    by (simp add: chunk_at_def sample_fs_def)
  have c: "concat (map Data [chunk_at 0 [1, 2], chunk_at 1 [3, 4]]) = [1, 2, 3, 4]"
    by (simp add: chunk_at_def)
  let ?S = "[chunk_at 0 [1, 2], chunk_at 1 [3, 4]]"
  have "map Index ?S = map int [0..<length ?S] \<longrightarrow>
          ''out.bin'' \<notin> set (denied sample_fs) \<and> length (concat (map Data ?S)) \<le> space sample_fs \<longrightarrow>
          (\<exists>fs'. ReconstructFile sample_fs shuffled_chunks ''out.bin'' = (None, ?S, fs') \<and>
                 files fs' ''out.bin'' = Some (concat (map Data ?S)))"
    using ReconstructFile_sorts_and_checks[OF ne(1), of sample_fs "''out.bin''"]
    unfolding sort_shuffled by blast
  with i1 d sp have a: "\<exists>fs'. ReconstructFile sample_fs shuffled_chunks ''out.bin''
             = (None, [chunk_at 0 [1, 2], chunk_at 1 [3, 4]], fs') \<and>
          files fs' ''out.bin'' = Some [1, 2, 3, 4]"
    unfolding c by blast
  have i2: "map Index [chunk_at 0 [1, 2], chunk_at 2 [5]] \<noteq> map int [0..<length [chunk_at 0 [1, 2], chunk_at 2 [5]]]"
    by (simp add: chunk_at_def upt_rec)
  have dg: "distinct (map Index gapped_chunks) \<and> (\<forall>c \<in> set gapped_chunks. 0 \<le> Index c)"
    by (simp add: gapped_chunks_def chunk_at_def)
  let ?G = "[chunk_at 0 [1, 2], chunk_at 2 [5]]"
  have "map Index ?G \<noteq> map int [0..<length ?G] \<longrightarrow>
              (\<exists>m<length ?G.
                 ReconstructFile sample_fs gapped_chunks ''out.bin''
                   = (Some (ErrMissingChunk (int m)), ?G, sample_fs) \<and>
                 Index (?G ! m) \<noteq> int m \<and> (\<forall>k<m. Index (?G ! k) = int k) \<and>
                 (distinct (map Index gapped_chunks) \<and> (\<forall>c \<in> set gapped_chunks. 0 \<le> Index c) \<longrightarrow>
                    int m \<notin> Index ` set gapped_chunks \<and> (\<forall>k<m. int k \<in> Index ` set gapped_chunks)))"
    using ReconstructFile_sorts_and_checks[OF ne(2), of sample_fs "''out.bin''"]
    unfolding sort_gapped by blast
  with i2 dg obtain m where m: "m < length ?G"
      "ReconstructFile sample_fs gapped_chunks ''out.bin''
         = (Some (ErrMissingChunk (int m)), ?G, sample_fs)"
      "Index (?G ! m) \<noteq> int m"
      "int m \<notin> Index ` set gapped_chunks"
    by blast
  have "m = 0 \<or> m = 1" using m(1) by auto
  moreover have "Index (?G ! 0) = 0" by (simp add: chunk_at_def)
  ultimately have "m = 1" using m(3) by auto
  then show ?thesis using ne d a m(2,4) by simp
qed

text \<open>
  \<^bold>\<open>C4, as stated,\<close> fails. The empty list has, vacuously, index \<open>i\<close> at every
  position, yet it is refused with the no-chunks error. For the indices 0, 1, 0 the error
  names index 1, which is not absent (the first absent index is 2). And a complete list
  is not written when the output file cannot be created.
\<close>

theorem ReconstructFile_counterexample:
  "ReconstructFile sample_fs [] ''out.bin'' = (Some ErrNoChunks, [], sample_fs) \<and>
   fst (ReconstructFile sample_fs duplicate_chunks ''out.bin'') = Some (ErrMissingChunk 1) \<and>
   1 \<in> Index ` set duplicate_chunks \<and> 0 \<in> Index ` set duplicate_chunks \<and>
   2 \<notin> Index ` set duplicate_chunks \<and>
   fst (ReconstructFile sample_fs shuffled_chunks ''/ro'') = Some ErrCreateOutput"
  by (simp add: ReconstructFile_def duplicate_chunks_def shuffled_chunks_def chunk_at_def
      sortByIndex_outer.simps sortByIndex_inner.simps os_Create_def sample_fs_def)

section \<open>The upload handler\<close>

subsection \<open>Schedules\<close>

lemma run_order_pick_less:
  "tasks \<noteq> [] \<Longrightarrow> (case picks of [] \<Rightarrow> 0 | p # x \<Rightarrow> p mod length tasks) < length tasks"
  by (cases picks) simp_all

lemma mset_run_order: "mset (run_order picks tasks) = mset tasks"
proof (induction picks tasks rule: run_order.induct)
  case (1 picks tasks)
  show ?case
  proof (cases "tasks = []")
    case True
    then show ?thesis by (subst run_order.simps) simp
  next
    case False
    define k where "k = (case picks of [] \<Rightarrow> 0 | p # x \<Rightarrow> p mod length tasks)"
    have k: "k < length tasks" unfolding k_def by (rule run_order_pick_less[OF False])
    have st: "run_order picks tasks = tasks ! k # run_order (tl picks) (take k tasks @ drop (Suc k) tasks)"
      using False by (subst run_order.simps) (simp add: k_def Let_def)
    have "mset (run_order (tl picks) (take k tasks @ drop (Suc k) tasks))
            = mset (take k tasks @ drop (Suc k) tasks)"
      using 1[OF False k_def] .
    moreover have "mset tasks = mset (take k tasks @ tasks ! k # drop (Suc k) tasks)"
      using id_take_nth_drop[OF k] by simp
    ultimately show ?thesis unfolding st by simp
  qed
qed

lemma run_order_complete:
  "mset order = mset tasks \<Longrightarrow> \<exists>picks. run_order picks tasks = order"
proof (induction order arbitrary: tasks)
  case Nil
  then have "tasks = []" by simp
  then show ?case by (simp add: run_order.simps)
next
  case (Cons y ys)
  then have "y \<in> set tasks" by (metis list.set_intros(1) set_mset_mset)
  then obtain k where k: "k < length tasks" "tasks ! k = y" by (metis in_set_conv_nth)
  have ne: "tasks \<noteq> []" using k by auto
  have "mset tasks = mset (take k tasks @ drop (Suc k) tasks) + {#y#}"
    using id_take_nth_drop[OF k(1)] k(2) by (metis add_mset_add_single mset.simps(2) mset_append union_mset_add_mset_right)
  then have "mset ys = mset (take k tasks @ drop (Suc k) tasks)"
    using Cons.prems by simp
  from Cons.IH[OF this] obtain picks where
    p: "run_order picks (take k tasks @ drop (Suc k) tasks) = ys" by blast
  have "run_order (k # picks) tasks = y # ys"
    using ne k p by (subst run_order.simps) (simp add: Let_def)
  then show ?case by blast
qed

subsection \<open>Distribution fails exactly when some store fails\<close>

lemma map_filter_Nil_iff: "List.map_filter f xs = [] \<longleftrightarrow> (\<forall>x \<in> set xs. f x = None)"
  by (induction xs) (auto simp: map_filter_simps split: option.splits)

lemma storeTask_None:
  "storeTask net clients (k, chunk) = None \<longleftrightarrow>
     StorageClient_StoreChunk net (clients ! (k mod length clients)) chunk = None"
  by (simp add: storeTask_def Let_def split: option.splits)

lemma distributeChunks_eq:
  assumes "clients \<noteq> []"
  shows "\<exists>err. distributeChunks net picks clients metadata =
           (if \<forall>k<length (Chunks metadata).
                 StorageClient_StoreChunk net (clients ! (k mod length clients)) (Chunks metadata ! k) = None
            then Ok None else Ok (Some err))"
proof -
  let ?tasks = "enumerate 0 (Chunks metadata)"
  let ?errChan = "List.map_filter (storeTask net clients) (run_order picks ?tasks)"
  have "set (run_order picks ?tasks) = set ?tasks"
    using mset_run_order[of picks ?tasks] by (metis set_mset_mset)
  then have "?errChan = [] \<longleftrightarrow> (\<forall>t \<in> set ?tasks. storeTask net clients t = None)"
    by (simp add: map_filter_Nil_iff)
  also have "\<dots> \<longleftrightarrow> (\<forall>k<length (Chunks metadata).
                 storeTask net clients (k, Chunks metadata ! k) = None)"
  proof
    assume h: "\<forall>t \<in> set ?tasks. storeTask net clients t = None"
    show "\<forall>k<length (Chunks metadata). storeTask net clients (k, Chunks metadata ! k) = None"
    proof (intro allI impI)
      fix k assume "k < length (Chunks metadata)"
      then have "(k, Chunks metadata ! k) \<in> set ?tasks" by (simp add: in_set_enumerate_eq)
      then show "storeTask net clients (k, Chunks metadata ! k) = None" using h by blast
    qed
  next
    assume h: "\<forall>k<length (Chunks metadata). storeTask net clients (k, Chunks metadata ! k) = None"
    show "\<forall>t \<in> set ?tasks. storeTask net clients t = None"
    proof
      fix t assume "t \<in> set ?tasks"
      then have "fst t < length (Chunks metadata)" "snd t = Chunks metadata ! fst t"
        by (simp_all add: in_set_enumerate_eq)
      then show "storeTask net clients t = None" using h by (metis prod.collapse)
    qed
  qed
  finally have e: "?errChan = [] \<longleftrightarrow> (\<forall>k<length (Chunks metadata).
       StorageClient_StoreChunk net (clients ! (k mod length clients)) (Chunks metadata ! k) = None)"
    by (simp add: storeTask_None)
  show ?thesis
  proof (cases ?errChan)
    case Nil
    then show ?thesis using assms e by (simp add: distributeChunks_def)
  next
    case (Cons err rest)
    then have "distributeChunks net picks clients metadata = Ok (Some err)"
      using assms by (simp add: distributeChunks_def)
    moreover have "\<not> (\<forall>k<length (Chunks metadata).
       StorageClient_StoreChunk net (clients ! (k mod length clients)) (Chunks metadata ! k) = None)"
      using e Cons by simp
    ultimately show ?thesis by (intro exI[of _ err]) simp
  qed
qed

lemma chunkFileInMemory_panics:
  assumes "\<not> (0 < K \<and> K * sizeof_FileChunk \<le> maxAlloc)"
  shows "is_Panic (chunkFileInMemory H data fileID K)"
  using assms by (auto simp: chunkFileInMemory_def makeslice_len_out_of_range_def Let_def)

text \<open>
  \<^bold>\<open>C5.\<close> An upload that reaches distribution (a form file within the size limit whose
  content can be read, a configured chunk count for which the split succeeds, that is a
  positive one for which the slice of chunks can be allocated, and at least one storage
  client) registers its metadata under the file id and answers 200 if the store call
  succeeded for every chunk; if any store call fails it answers 500 and leaves the server's
  state, and so the metadata map, as it was. This holds for every schedule of the
  goroutines. With any other chunk count the split panics, the upload answers 500 before
  distribution and the state stays as it was. And whatever the request, the metadata map
  only ever changes by a 200 answer that registers the returned metadata.
\<close>

theorem upload_registers_iff_all_stored:
  "(request = Some header \<and> header_Size header \<le> MaxFileSize s \<and>
    content header = Some fileData \<and>
    0 < cfg_ChunkCount s \<and> cfg_ChunkCount s * sizeof_FileChunk \<le> maxAlloc \<and>
    storageClients s \<noteq> [] \<longrightarrow>
      (\<exists>chunks metadata.
         chunkFileInMemory H fileData fileID (cfg_ChunkCount s) = Ok chunks \<and>
         mID metadata = fileID \<and> Chunks metadata = chunks \<and>
         streamingUploadFile H net picks s fileID request =
           (if \<forall>k<length chunks.
                 StorageClient_StoreChunk net
                   (storageClients s ! (k mod length (storageClients s))) (chunks ! k) = None
            then Ok (200, Some metadata, s\<lparr>fileMetadata := (fileMetadata s)(fileID \<mapsto> metadata)\<rparr>)
            else Ok (500, None, s)))) \<and>
   (request = Some header \<and> header_Size header \<le> MaxFileSize s \<and>
    content header = Some fileData \<and>
    \<not> (0 < cfg_ChunkCount s \<and> cfg_ChunkCount s * sizeof_FileChunk \<le> maxAlloc) \<longrightarrow>
      streamingUploadFile H net picks s fileID request = Ok (500, None, s)) \<and>
   (\<forall>status body s'.
      streamingUploadFile H net picks s fileID request = Ok (status, body, s') \<longrightarrow>
        (status = 200 \<and> (\<exists>metadata. body = Some metadata \<and>
            s' = s\<lparr>fileMetadata := (fileMetadata s)(fileID \<mapsto> metadata)\<rparr>)) \<or>
        (status \<noteq> 200 \<and> body = None \<and> s' = s))"
proof (intro conjI impI allI)
  assume b: "request = Some header \<and> header_Size header \<le> MaxFileSize s \<and>
    content header = Some fileData \<and>
    \<not> (0 < cfg_ChunkCount s \<and> cfg_ChunkCount s * sizeof_FileChunk \<le> maxAlloc)"
  then have "is_Panic (chunkFileInMemory H fileData fileID (cfg_ChunkCount s))"
    by (intro chunkFileInMemory_panics) simp
  then obtain q where "chunkFileInMemory H fileData fileID (cfg_ChunkCount s) = Panic q"
    by (cases "chunkFileInMemory H fileData fileID (cfg_ChunkCount s)") simp_all
  then show "streamingUploadFile H net picks s fileID request = Ok (500, None, s)"
    using b by (simp add: streamingUploadFile_def)
next
  assume a: "request = Some header \<and> header_Size header \<le> MaxFileSize s \<and>
    content header = Some fileData \<and>
    0 < cfg_ChunkCount s \<and> cfg_ChunkCount s * sizeof_FileChunk \<le> maxAlloc \<and>
    storageClients s \<noteq> []"
  let ?chunks = "map (mk_chunk H fileID fileData (cfg_ChunkCount s)) [0..<nat (cfg_ChunkCount s)]"
  let ?md = "\<lparr>mID = fileID, OriginalName = Filename header,
               mSize = int (length fileData), mChecksum = H fileData,
               ChunkCount = int (length ?chunks), Chunks = ?chunks,
               ContentType = header_ContentType header\<rparr>"
  have split: "chunkFileInMemory H fileData fileID (cfg_ChunkCount s) = Ok ?chunks"
    using a by (intro chunkFileInMemory_eq) simp_all
  obtain err where d: "distributeChunks net picks (storageClients s) ?md =
           (if \<forall>k<length (Chunks ?md).
                 StorageClient_StoreChunk net
                   (storageClients s ! (k mod length (storageClients s))) (Chunks ?md ! k) = None
            then Ok None else Ok (Some err))"
    using distributeChunks_eq[of "storageClients s" net picks ?md] a by blast
  have ch: "Chunks ?md = ?chunks" by simp
  have up: "streamingUploadFile H net picks s fileID request =
           (if \<forall>k<length ?chunks.
                 StorageClient_StoreChunk net
                   (storageClients s ! (k mod length (storageClients s))) (?chunks ! k) = None
            then Ok (200, Some ?md, s\<lparr>fileMetadata := (fileMetadata s)(fileID \<mapsto> ?md)\<rparr>)
            else Ok (500, None, s))"
    using a d unfolding ch
    by (simp add: streamingUploadFile_def split Let_def del: length_map nth_map map_map)
  show "\<exists>chunks metadata.
         chunkFileInMemory H fileData fileID (cfg_ChunkCount s) = Ok chunks \<and>
         mID metadata = fileID \<and> Chunks metadata = chunks \<and>
         streamingUploadFile H net picks s fileID request =
           (if \<forall>k<length chunks.
                 StorageClient_StoreChunk net
                   (storageClients s ! (k mod length (storageClients s))) (chunks ! k) = None
            then Ok (200, Some metadata, s\<lparr>fileMetadata := (fileMetadata s)(fileID \<mapsto> metadata)\<rparr>)
            else Ok (500, None, s))"
    by (intro exI[of _ ?chunks] exI[of _ ?md] conjI split up) simp_all
next
  fix status body s'
  assume "streamingUploadFile H net picks s fileID request = Ok (status, body, s')"
  then show "(status = 200 \<and> (\<exists>metadata. body = Some metadata \<and>
            s' = s\<lparr>fileMetadata := (fileMetadata s)(fileID \<mapsto> metadata)\<rparr>)) \<or>
        (status \<noteq> 200 \<and> body = None \<and> s' = s)"
    by (auto simp: streamingUploadFile_def Let_def
        split: option.splits if_splits result.splits)
qed

text \<open>One upload on the network with an unreachable server (chunk 1 goes to it), and the
  same upload on the network where every server accepts.\<close>

theorem upload_registers_iff_all_stored_witness:
  "header_Size small_upload \<le> MaxFileSize empty_server \<and>
   content small_upload = Some [1, 2, 3] \<and> 0 < cfg_ChunkCount empty_server \<and>
   cfg_ChunkCount empty_server * sizeof_FileChunk \<le> maxAlloc \<and>
   storageClients empty_server \<noteq> [] \<and>
   streamingUploadFile sample_digest partial_net [] empty_server ''f'' (Some small_upload)
     = Ok (500, None, empty_server) \<and>
   (\<exists>metadata.
      streamingUploadFile sample_digest accepting_net [1, 0] empty_server ''f'' (Some small_upload)
        = Ok (200, Some metadata, empty_server\<lparr>fileMetadata := [''f'' \<mapsto> metadata]\<rparr>) \<and>
      mID metadata = ''f'')"
proof -
  have a: "Some small_upload = Some small_upload \<and>
           header_Size small_upload \<le> MaxFileSize empty_server \<and>
           content small_upload = Some [1, 2, 3] \<and> 0 < cfg_ChunkCount empty_server \<and>
           cfg_ChunkCount empty_server * sizeof_FileChunk \<le> maxAlloc \<and>
           storageClients empty_server \<noteq> []"
    by (simp add: small_upload_def empty_server_def sizeof_FileChunk_def maxAlloc_def)
  have cl: "storageClients empty_server ! (1 mod length (storageClients empty_server)) = ''http://b''"
    by (simp add: empty_server_def)
  have len: "length chunks = 2"
    if "chunkFileInMemory sample_digest [1, 2, 3] ''f'' (cfg_ChunkCount empty_server) = Ok chunks"
    for chunks
  proof -
    have "cfg_ChunkCount empty_server = 2" by (simp add: empty_server_def)
    then have "chunkFileInMemory sample_digest [1, 2, 3] ''f'' 2 = Ok chunks" using that by simp
    moreover have "chunkFileInMemory sample_digest [1, 2, 3] ''f'' 2
        = Ok (map (mk_chunk sample_digest ''f'' [1, 2, 3] 2) [0..<nat 2])"
      by (rule chunkFileInMemory_eq) (simp_all add: sample_within_limits)
    ultimately have "chunks = map (mk_chunk sample_digest ''f'' [1, 2, 3] 2) [0..<nat 2]" by simp
    then show ?thesis by simp
  qed
  from upload_registers_iff_all_stored[of "Some small_upload" small_upload empty_server
         "[1, 2, 3]" sample_digest "''f''" partial_net "[]", THEN conjunct1, THEN mp, OF a]
  obtain chunks where "\<exists>metadata.
         chunkFileInMemory sample_digest [1, 2, 3] ''f'' (cfg_ChunkCount empty_server) = Ok chunks \<and>
         mID metadata = ''f'' \<and> Chunks metadata = chunks \<and>
         streamingUploadFile sample_digest partial_net [] empty_server ''f'' (Some small_upload) =
           (if \<forall>k<length chunks.
                 StorageClient_StoreChunk partial_net
                   (storageClients empty_server ! (k mod length (storageClients empty_server)))
                   (chunks ! k) = None
            then Ok (200, Some metadata,
                     empty_server\<lparr>fileMetadata := (fileMetadata empty_server)(''f'' \<mapsto> metadata)\<rparr>)
            else Ok (500, None, empty_server))" ..
  then obtain metadata where h:
        "chunkFileInMemory sample_digest [1, 2, 3] ''f'' (cfg_ChunkCount empty_server) = Ok chunks \<and>
         mID metadata = ''f'' \<and> Chunks metadata = chunks \<and>
         streamingUploadFile sample_digest partial_net [] empty_server ''f'' (Some small_upload) =
           (if \<forall>k<length chunks.
                 StorageClient_StoreChunk partial_net
                   (storageClients empty_server ! (k mod length (storageClients empty_server)))
                   (chunks ! k) = None
            then Ok (200, Some metadata,
                     empty_server\<lparr>fileMetadata := (fileMetadata empty_server)(''f'' \<mapsto> metadata)\<rparr>)
            else Ok (500, None, empty_server))" ..
  note c = h[THEN conjunct1] and u = h[THEN conjunct2, THEN conjunct2, THEN conjunct2]
  have "StorageClient_StoreChunk partial_net
          (storageClients empty_server ! (1 mod length (storageClients empty_server)))
          (chunks ! 1) \<noteq> None"
    unfolding cl by (simp add: StorageClient_StoreChunk_def partial_net_def)
  moreover have "1 < length chunks" using len[OF c] by simp
  ultimately have nall: "\<not> (\<forall>k<length chunks.
                 StorageClient_StoreChunk partial_net
                   (storageClients empty_server ! (k mod length (storageClients empty_server)))
                   (chunks ! k) = None)"
    by (intro notI) (drule spec[of _ 1], simp)
  have fail: "streamingUploadFile sample_digest partial_net [] empty_server ''f'' (Some small_upload)
     = Ok (500, None, empty_server)"
    using u unfolding if_not_P[OF nall] .
  from upload_registers_iff_all_stored[of "Some small_upload" small_upload empty_server
         "[1, 2, 3]" sample_digest "''f''" accepting_net "[1, 0]", THEN conjunct1, THEN mp, OF a]
  obtain chunks' where "\<exists>metadata.
         chunkFileInMemory sample_digest [1, 2, 3] ''f'' (cfg_ChunkCount empty_server) = Ok chunks' \<and>
         mID metadata = ''f'' \<and> Chunks metadata = chunks' \<and>
         streamingUploadFile sample_digest accepting_net [1, 0] empty_server ''f'' (Some small_upload) =
           (if \<forall>k<length chunks'.
                 StorageClient_StoreChunk accepting_net
                   (storageClients empty_server ! (k mod length (storageClients empty_server)))
                   (chunks' ! k) = None
            then Ok (200, Some metadata,
                     empty_server\<lparr>fileMetadata := (fileMetadata empty_server)(''f'' \<mapsto> metadata)\<rparr>)
            else Ok (500, None, empty_server))" ..
  then obtain metadata' where h':
        "chunkFileInMemory sample_digest [1, 2, 3] ''f'' (cfg_ChunkCount empty_server) = Ok chunks' \<and>
         mID metadata' = ''f'' \<and> Chunks metadata' = chunks' \<and>
         streamingUploadFile sample_digest accepting_net [1, 0] empty_server ''f'' (Some small_upload) =
           (if \<forall>k<length chunks'.
                 StorageClient_StoreChunk accepting_net
                   (storageClients empty_server ! (k mod length (storageClients empty_server)))
                   (chunks' ! k) = None
            then Ok (200, Some metadata',
                     empty_server\<lparr>fileMetadata := (fileMetadata empty_server)(''f'' \<mapsto> metadata')\<rparr>)
            else Ok (500, None, empty_server))" ..
  note m = h'[THEN conjunct2, THEN conjunct1] and u' = h'[THEN conjunct2, THEN conjunct2, THEN conjunct2]
  have acc: "\<And>client chunk. StorageClient_StoreChunk accepting_net client chunk = None"
    by (simp add: StorageClient_StoreChunk_def accepting_net_def)
  have all: "\<forall>k<length chunks'.
                 StorageClient_StoreChunk accepting_net
                   (storageClients empty_server ! (k mod length (storageClients empty_server)))
                   (chunks' ! k) = None"
    by (simp only: acc simp_thms)
  have "streamingUploadFile sample_digest accepting_net [1, 0] empty_server ''f'' (Some small_upload)
      = Ok (200, Some metadata',
            empty_server\<lparr>fileMetadata := (fileMetadata empty_server)(''f'' \<mapsto> metadata')\<rparr>)"
    using u' unfolding if_P[OF all] .
  moreover have "fileMetadata empty_server = Map.empty" by (simp add: empty_server_def)
  ultimately have ok: "\<exists>metadata.
      streamingUploadFile sample_digest accepting_net [1, 0] empty_server ''f'' (Some small_upload)
        = Ok (200, Some metadata, empty_server\<lparr>fileMetadata := [''f'' \<mapsto> metadata]\<rparr>) \<and>
      mID metadata = ''f''"
    using m by (intro exI[of _ metadata']) simp
  show ?thesis using a fail ok by (intro conjI) simp_all
qed

end
